theory Spec2Isabelle
  imports Complex_Main "HOL-Library.Word"
begin

section \<open>JavaScript values used by \<^verbatim>\<open>src/src/App.vue\<close>\<close>

subsection \<open>Strings\<close>

text \<open>
  A JavaScript string is a sequence of 16-bit code units. The characters the program
  looks at are written by their code: \<open>35\<close> is \<^verbatim>\<open>#\<close>, \<open>44\<close> the comma, \<open>45\<close> the
  minus sign, \<open>48..57\<close> the digits, \<open>65..70\<close> the letters A to F and \<open>97..102\<close> the
  letters a to f. \<open>js\<close> turns an ASCII literal into such a string.
\<close>

type_synonym code_unit = "16 word"
type_synonym jsstring = "code_unit list"

definition js :: "string \<Rightarrow> jsstring" where
  "js s = map of_char s"

text \<open>The regular expression class \<^verbatim>\<open>\d\<close>: the ten ASCII digits.\<close>

definition is_digit :: "code_unit \<Rightarrow> bool" where
  "is_digit c \<longleftrightarrow> 48 \<le> c \<and> c \<le> 57"

text \<open>
  The class \<^verbatim>\<open>[a-f\d]\<close> under the flag \<^verbatim>\<open>i\<close> (of \<^verbatim>\<open>hexToRgb\<close>). Without the flag
  \<^verbatim>\<open>u\<close>, a code unit above 127 is never identified with an ASCII letter, so the class
  holds the digits and the letters a to f in both cases.
\<close>

definition is_hex :: "code_unit \<Rightarrow> bool" where
  "is_hex c \<longleftrightarrow> (97 \<le> c \<and> c \<le> 102) \<or> (65 \<le> c \<and> c \<le> 70) \<or> is_digit c"

text \<open>The class \<^verbatim>\<open>[0-9A-Fa-f]\<close> (of \<^verbatim>\<open>validateAndConvertColor\<close>).\<close>

definition is_hex_class :: "code_unit \<Rightarrow> bool" where
  "is_hex_class c \<longleftrightarrow> (48 \<le> c \<and> c \<le> 57) \<or> (65 \<le> c \<and> c \<le> 70) \<or> (97 \<le> c \<and> c \<le> 102)"

text \<open>
  The class \<^verbatim>\<open>\s\<close>: the white space and line terminator code points of ECMAScript
  (tab, line feed, vertical tab, form feed, carriage return, space, no-break space,
  U+1680, U+2000 to U+200A, U+2028, U+2029, U+202F, U+205F, U+3000, U+FEFF).
\<close>

definition is_space :: "code_unit \<Rightarrow> bool" where
  "is_space c \<longleftrightarrow>
     (9 \<le> c \<and> c \<le> 13) \<or> c = 32 \<or> c = 160 \<or> c = 5760 \<or> (8192 \<le> c \<and> c \<le> 8202) \<or>
     c = 8232 \<or> c = 8233 \<or> c = 8239 \<or> c = 8287 \<or> c = 12288 \<or> c = 65279"

text \<open>The value of a digit of radix up to 16, in either case.\<close>

definition digit_value :: "code_unit \<Rightarrow> int" where
  "digit_value c =
     (if c \<le> 57 then uint c - 48 else if c \<le> 70 then uint c - 55 else uint c - 87)"

text \<open>
  \<^verbatim>\<open>parseInt(s, radix)\<close> on a string that consists of digits of the radix, which is all
  the program passes to it (the groups captured by its regular expressions; a call
  without radix reads such a string in base 10). The result is the exact integer:
  JavaScript rounds it to a double beyond \<open>2 ^ 53\<close>, monotonically, so that the
  comparisons with 0, 16, 235, 240 and 255 that follow come out the same.
\<close>

definition parseInt :: "jsstring \<Rightarrow> int \<Rightarrow> int" where
  "parseInt s radix = foldl (\<lambda>a c. a * radix + digit_value c) 0 s"

text \<open>\<^verbatim>\<open>s.startsWith('#')\<close>\<close>

definition startsWith_hash :: "jsstring \<Rightarrow> bool" where
  "startsWith_hash s = (case s of [] \<Rightarrow> False | c # _ \<Rightarrow> c = 35)"

text \<open>
  \<^verbatim>\<open>s.toUpperCase()\<close> on the ASCII letters. The program applies it to \<open>currentColor\<close>
  only after \<open>hexToRgb\<close> has matched it, when it holds \<^verbatim>\<open>#\<close>, digits and letters a to f.
\<close>

definition toUpperCase :: "jsstring \<Rightarrow> jsstring" where
  "toUpperCase s = map (\<lambda>c. if 97 \<le> c \<and> c \<le> 122 then c - 32 else c) s"

subsection \<open>32-bit shifts and \<^verbatim>\<open>toString(16)\<close>\<close>

text \<open>
  \<^verbatim>\<open>x << k\<close> converts \<open>x\<close> to a 32-bit integer, shifts, and reads the result as a
  signed 32-bit integer.
\<close>

definition toInt32 :: "int \<Rightarrow> int" where
  "toInt32 n = (n + 2 ^ 31) mod 2 ^ 32 - 2 ^ 31"

definition shl :: "int \<Rightarrow> nat \<Rightarrow> int" where
  "shl x k = toInt32 (x * 2 ^ k)"

definition hex_digit :: "nat \<Rightarrow> code_unit" where
  "hex_digit d = (if d < 10 then 48 + of_nat d else 87 + of_nat d)"

fun hex_digits :: "nat \<Rightarrow> jsstring" where
  "hex_digits n = (if n < 16 then [hex_digit n] else hex_digits (n div 16) @ [hex_digit (n mod 16)])"

declare hex_digits.simps [simp del]

text \<open>\<^verbatim>\<open>n.toString(16)\<close> for an integer \<open>n\<close>: a minus sign if negative, lower-case digits.\<close>

definition toString16 :: "int \<Rightarrow> jsstring" where
  "toString16 n = (if n < 0 then 45 # hex_digits (nat (- n)) else hex_digits (nat n))"

subsection \<open>Numbers\<close>

text \<open>
  A JavaScript number is an IEEE 754 binary64 value. The finite ones are rationals, and
  each arithmetic operation returns the exact result rounded to the nearest value with
  a significand of 53 bits, ties to the even significand; below \<open>2 ^ -1022\<close> the spacing
  stays \<open>2 ^ -1074\<close> (subnormal numbers). \<open>fl\<close> is that rounding. Overflow to
  \<^verbatim>\<open>Infinity\<close> is not modelled: it needs a result of magnitude \<open>2 ^ 1024\<close>, which no
  operation of the program reaches on arguments below \<open>2 ^ 1000\<close>. The program never
  divides, so no \<^verbatim>\<open>NaN\<close> arises, and the sign of zero is not observable through
  \<^verbatim>\<open>Math.max(0, x)\<close> or the comparisons.
\<close>

definition pow2 :: "int \<Rightarrow> rat" where
  "pow2 k = (if 0 \<le> k then 2 ^ nat k else 1 / 2 ^ nat (- k))"

fun ilog2 :: "nat \<Rightarrow> nat" where
  "ilog2 n = (if n < 2 then 0 else Suc (ilog2 (n div 2)))"

declare ilog2.simps [simp del]

text \<open>The binary exponent of \<open>x \<noteq> 0\<close>: the \<open>e\<close> with \<open>2 ^ e \<le> \<bar>x\<bar> < 2 ^ (e + 1)\<close>.\<close>

definition exponent :: "rat \<Rightarrow> int" where
  "exponent x =
     (if 1 \<le> \<bar>x\<bar> then int (ilog2 (nat \<lfloor>\<bar>x\<bar>\<rfloor>))
      else - int (ilog2 (nat (\<lceil>1 / \<bar>x\<bar>\<rceil> - 1))) - 1)"

definition round_half_even :: "rat \<Rightarrow> int" where
  "round_half_even m =
     (let f = \<lfloor>m\<rfloor>; d = m - of_int f
      in if d < 1 / 2 then f else if 1 / 2 < d then f + 1 else if even f then f else f + 1)"

definition fl :: "rat \<Rightarrow> rat" where
  "fl x =
     (if x = 0 then 0
      else let q = pow2 (max (exponent x) (- 1022) - 52)
           in of_int (round_half_even (x / q)) * q)"

text \<open>The operators \<^verbatim>\<open>*\<close>, \<^verbatim>\<open>+\<close> and \<^verbatim>\<open>-\<close> on numbers.\<close>

definition fmul :: "rat \<Rightarrow> rat \<Rightarrow> rat" where
  "fmul x y = fl (x * y)"

definition fadd :: "rat \<Rightarrow> rat \<Rightarrow> rat" where
  "fadd x y = fl (x + y)"

definition fsub :: "rat \<Rightarrow> rat \<Rightarrow> rat" where
  "fsub x y = fl (x - y)"

text \<open>A decimal literal of the source denotes the double nearest to it.\<close>

definition lit :: "rat \<Rightarrow> rat" where
  "lit d = fl d"

text \<open>
  \<^verbatim>\<open>Math.round(x)\<close>: the integer nearest to \<open>x\<close>, the larger one at a tie; it is computed
  exactly, and the result is kept as an integer. \<^verbatim>\<open>Math.max\<close> and \<^verbatim>\<open>Math.min\<close>
  return one of their arguments.
\<close>

definition Math_round :: "rat \<Rightarrow> int" where
  "Math_round x = \<lfloor>x + 1 / 2\<rfloor>"

definition Math_max :: "'a::linorder \<Rightarrow> 'a \<Rightarrow> 'a" where
  "Math_max x y = (if x \<le> y then y else x)"

definition Math_min :: "'a::linorder \<Rightarrow> 'a \<Rightarrow> 'a" where
  "Math_min x y = (if x \<le> y then x else y)"

section \<open>The colour conversions\<close>

record rgb =
  rgb_r :: int
  rgb_g :: int
  rgb_b :: int

record ycbcr =
  ycbcr_y :: int
  ycbcr_cb :: int
  ycbcr_cr :: int

subsection \<open>\<^verbatim>\<open>hexToRgb\<close>\<close>

text \<open>
  \<^verbatim>\<open>/^#?([a-f\d]{2})([a-f\d]{2})([a-f\d]{2})$/i.exec(hex)\<close>. \<open>hex_groups\<close> matches what
  follows the optional \<^verbatim>\<open>#\<close>, up to the end of the string, and returns the three
  groups. \<open>hex_exec\<close> first lets \<^verbatim>\<open>#?\<close> take a leading \<^verbatim>\<open>#\<close> and, if the rest then fails,
  backtracks and lets it match the empty string.
\<close>

definition hex_groups :: "(code_unit \<Rightarrow> bool) \<Rightarrow> jsstring \<Rightarrow> (jsstring \<times> jsstring \<times> jsstring) option" where
  "hex_groups cls s =
     (if length s = 6 \<and> list_all cls s
      then Some (take 2 s, take 2 (drop 2 s), take 2 (drop 4 s)) else None)"

definition hex_exec :: "(code_unit \<Rightarrow> bool) \<Rightarrow> jsstring \<Rightarrow> (jsstring \<times> jsstring \<times> jsstring) option" where
  "hex_exec cls s =
     (if startsWith_hash s
      then (case hex_groups cls (tl s) of Some m \<Rightarrow> Some m | None \<Rightarrow> hex_groups cls s)
      else hex_groups cls s)"

definition hexToRgb :: "jsstring \<Rightarrow> rgb option" where
  "hexToRgb hex =
     (case hex_exec is_hex hex of
        None \<Rightarrow> None
      | Some (g1, g2, g3) \<Rightarrow>
          Some \<lparr>rgb_r = parseInt g1 16, rgb_g = parseInt g2 16, rgb_b = parseInt g3 16\<rparr>)"

subsection \<open>\<^verbatim>\<open>rgbToHex\<close>\<close>

text \<open>
  \<^verbatim>\<open>"#" + ((1 << 24) + (r << 16) + (g << 8) + b).toString(16).slice(1)\<close>, on integer
  arguments. The three shifted terms are 32-bit integers, so the additions are exact
  (as long as \<open>b\<close> is below \<open>2 ^ 52\<close>; the program passes bytes). \<^verbatim>\<open>slice(1)\<close> drops the
  first character.
\<close>

definition rgbToHex :: "int \<Rightarrow> int \<Rightarrow> int \<Rightarrow> jsstring" where
  "rgbToHex r g b = 35 # drop 1 (toString16 (shl 1 24 + shl r 16 + shl g 8 + b))"

subsection \<open>\<^verbatim>\<open>rgbToYcbcr\<close>\<close>

text \<open>
  The arguments and results of the two conversions are integers; an integer below
  \<open>2 ^ 53\<close> is a number as it stands. The operators associate to the left, and each
  operation rounds.
\<close>

definition rgbToYcbcr :: "int \<Rightarrow> int \<Rightarrow> int \<Rightarrow> ycbcr" where
  "rgbToYcbcr r g b =
     (let y = fadd (fadd (fmul (lit (299 / 1000)) (of_int r)) (fmul (lit (587 / 1000)) (of_int g)))
                   (fmul (lit (114 / 1000)) (of_int b));
          cb = fadd (fsub (fsub 128 (fmul (lit (168736 / 1000000)) (of_int r)))
                          (fmul (lit (331264 / 1000000)) (of_int g)))
                    (fmul (lit (5 / 10)) (of_int b));
          cr = fsub (fsub (fadd 128 (fmul (lit (5 / 10)) (of_int r)))
                          (fmul (lit (418688 / 1000000)) (of_int g)))
                    (fmul (lit (81312 / 1000000)) (of_int b))
      in \<lparr>ycbcr_y = Math_round (Math_max 16 (Math_min 235 y)),
          ycbcr_cb = Math_round (Math_max 16 (Math_min 240 cb)),
          ycbcr_cr = Math_round (Math_max 16 (Math_min 240 cr))\<rparr>)"

subsection \<open>\<^verbatim>\<open>ycbcrToRgb\<close>\<close>

definition ycbcrToRgb :: "int \<Rightarrow> int \<Rightarrow> int \<Rightarrow> rgb" where
  "ycbcrToRgb y cb cr =
     (let yAdj = fsub (of_int y) 16;
          cbAdj = fsub (of_int cb) 128;
          crAdj = fsub (of_int cr) 128;
          r = fadd (fmul (lit (1164 / 1000)) yAdj) (fmul (lit (1596 / 1000)) crAdj);
          g = fsub (fsub (fmul (lit (1164 / 1000)) yAdj) (fmul (lit (392 / 1000)) cbAdj))
                   (fmul (lit (813 / 1000)) crAdj);
          b = fadd (fmul (lit (1164 / 1000)) yAdj) (fmul (lit (2017 / 1000)) cbAdj)
      in \<lparr>rgb_r = Math_max 0 (Math_min 255 (Math_round r)),
          rgb_g = Math_max 0 (Math_min 255 (Math_round g)),
          rgb_b = Math_max 0 (Math_min 255 (Math_round b))\<rparr>)"

section \<open>The application state\<close>

text \<open>
  The three refs of the component. \<open>inputType\<close> only ever holds one of the three strings
  \<^verbatim>\<open>'hex'\<close>, \<^verbatim>\<open>'rgb'\<close> and \<^verbatim>\<open>'ycbcr'\<close>, which the format buttons assign.
\<close>

datatype input_type = Hex | Rgb | Ycbcr

record state =
  colorInput :: jsstring
  inputType :: input_type
  currentColor :: jsstring

definition initial :: state where
  "initial = \<lparr>colorInput = [], inputType = Hex, currentColor = js ''#3B82F6''\<rparr>"

subsection \<open>\<^verbatim>\<open>colorInfo\<close>\<close>

record color_info =
  info_hex :: jsstring
  info_rgb :: rgb
  info_ycbcr :: ycbcr

definition colorInfo :: "state \<Rightarrow> color_info option" where
  "colorInfo st =
     (if currentColor st = [] then None
      else case hexToRgb (currentColor st) of
             None \<Rightarrow> None
           | Some c \<Rightarrow>
               Some \<lparr>info_hex = toUpperCase (currentColor st),
                     info_rgb = c,
                     info_ycbcr = rgbToYcbcr (rgb_r c) (rgb_g c) (rgb_b c)\<rparr>)"

subsection \<open>\<^verbatim>\<open>validateAndConvertColor\<close>\<close>

text \<open>
  \<^verbatim>\<open>/(\d+),\s*(\d+),\s*(\d+)/\<close> tried at the start of a string. Each \<^verbatim>\<open>\d+\<close> and \<^verbatim>\<open>\s*\<close> is
  greedy; giving back a character never helps, because the character given back is a
  digit (or white space) where a comma (or a digit) is required. So each takes the
  longest run, and the match fails as soon as what follows is not what the pattern
  requires. \<open>digits_comma\<close> is \<^verbatim>\<open>(\d+),\<close>: it returns the group and what follows the comma.
\<close>

definition digits_comma :: "jsstring \<Rightarrow> (jsstring \<times> jsstring) option" where
  "digits_comma s =
     (let d = takeWhile is_digit s
      in case dropWhile is_digit s of
           [] \<Rightarrow> None
         | c # rest \<Rightarrow> if d \<noteq> [] \<and> c = 44 then Some (d, rest) else None)"

definition match_here :: "jsstring \<Rightarrow> (jsstring \<times> jsstring \<times> jsstring) option" where
  "match_here s =
     (case digits_comma s of
        None \<Rightarrow> None
      | Some (d1, s2) \<Rightarrow>
          (case digits_comma (dropWhile is_space s2) of
             None \<Rightarrow> None
           | Some (d2, s5) \<Rightarrow>
               (let d3 = takeWhile is_digit (dropWhile is_space s5)
                in if d3 = [] then None else Some (d1, d2, d3))))"

text \<open>
  \<^verbatim>\<open>s.match(/(\d+),\s*(\d+),\s*(\d+)/)\<close>: the pattern has no anchor and no flag, so the
  match is the one at the leftmost position of \<open>s\<close> where the pattern matches.
\<close>

fun match_triple :: "jsstring \<Rightarrow> (jsstring \<times> jsstring \<times> jsstring) option" where
  "match_triple [] = None"
| "match_triple (c # cs) =
     (case match_here (c # cs) of Some m \<Rightarrow> Some m | None \<Rightarrow> match_triple cs)"

text \<open>\<^verbatim>\<open>/^#?[0-9A-Fa-f]{6}$/.test(s)\<close>\<close>

definition hex_test :: "jsstring \<Rightarrow> bool" where
  "hex_test s \<longleftrightarrow> hex_exec is_hex_class s \<noteq> None"

text \<open>
  The body of \<^verbatim>\<open>validateAndConvertColor\<close>. It returns the final value of its local
  variable \<^verbatim>\<open>rgb\<close> (\<open>None\<close> for \<^verbatim>\<open>null\<close>) together with the state it leaves; the function
  itself returns nothing, so \<open>validateAndConvertColor\<close> keeps the state only.
\<close>

definition validate_body :: "state \<Rightarrow> rgb option \<times> state" where
  "validate_body st =
     (if colorInput st = [] then (None, st)
      else case inputType st of
        Hex \<Rightarrow>
          if hex_test (colorInput st)
          then let hex = (if startsWith_hash (colorInput st) then colorInput st
                          else 35 # colorInput st);
                   rgb = hexToRgb hex
               in (rgb, if rgb \<noteq> None then st\<lparr>currentColor := hex\<rparr> else st)
          else (None, st)
      | Rgb \<Rightarrow>
          (case match_triple (colorInput st) of
             None \<Rightarrow> (None, st)
           | Some (m1, m2, m3) \<Rightarrow>
               let r = parseInt m1 10; g = parseInt m2 10; b = parseInt m3 10
               in if r \<ge> 0 \<and> r \<le> 255 \<and> g \<ge> 0 \<and> g \<le> 255 \<and> b \<ge> 0 \<and> b \<le> 255
                  then (Some \<lparr>rgb_r = r, rgb_g = g, rgb_b = b\<rparr>,
                        st\<lparr>currentColor := rgbToHex r g b\<rparr>)
                  else (None, st))
      | Ycbcr \<Rightarrow>
          (case match_triple (colorInput st) of
             None \<Rightarrow> (None, st)
           | Some (m1, m2, m3) \<Rightarrow>
               let y = parseInt m1 10; cb = parseInt m2 10; cr = parseInt m3 10
               in if y \<ge> 16 \<and> y \<le> 235 \<and> cb \<ge> 16 \<and> cb \<le> 240 \<and> cr \<ge> 16 \<and> cr \<le> 240
                  then let rgb = ycbcrToRgb y cb cr
                       in (Some rgb,
                           st\<lparr>currentColor := rgbToHex (rgb_r rgb) (rgb_g rgb) (rgb_b rgb)\<rparr>)
                  else (None, st)))"

definition validateAndConvertColor :: "state \<Rightarrow> state" where
  "validateAndConvertColor st = snd (validate_body st)"

text \<open>
  The input is accepted when the local variable \<^verbatim>\<open>rgb\<close> ends up set; every branch sets
  it exactly where it assigns \<open>currentColor\<close>.
\<close>

definition accepted :: "state \<Rightarrow> bool" where
  "accepted st \<longleftrightarrow> fst (validate_body st) \<noteq> None"

subsection \<open>Events\<close>

text \<open>
  What the template wires to the state: typing into the field assigns \<open>colorInput\<close>
  (\<^verbatim>\<open>v-model\<close>), the \<^verbatim>\<open>input\<close> event and the convert button call
  \<^verbatim>\<open>validateAndConvertColor\<close>, and a format button assigns \<open>inputType\<close>. The watcher on
  \<open>inputType\<close> runs when the assigned value differs from the old one, and empties
  \<open>colorInput\<close>.
\<close>

definition select_type :: "input_type \<Rightarrow> state \<Rightarrow> state" where
  "select_type t st =
     (if t = inputType st then st else st\<lparr>inputType := t, colorInput := []\<rparr>)"

datatype event = Typed jsstring | Convert | Select input_type

fun step :: "state \<Rightarrow> event \<Rightarrow> state" where
  "step st (Typed s) = st\<lparr>colorInput := s\<rparr>"
| "step st Convert = validateAndConvertColor st"
| "step st (Select t) = select_type t st"

definition run :: "event list \<Rightarrow> state" where
  "run evs = foldl step initial evs"

section \<open>Notions of the specification\<close>

text \<open>
  The characters of the pattern \<^verbatim>\<open>^#?[0-9A-Fa-f]{6}$\<close> and its language: six hex digits
  after an optional \<^verbatim>\<open>#\<close>, and nothing else.
\<close>

definition hex_chars :: "code_unit set" where
  "hex_chars = set (js ''0123456789ABCDEFabcdef'')"

definition matches_hex6 :: "jsstring \<Rightarrow> bool" where
  "matches_hex6 s \<longleftrightarrow> (\<exists>ds. (s = ds \<or> s = 35 # ds) \<and> length ds = 6 \<and> set ds \<subseteq> hex_chars)"

text \<open>
  The value of a hex digit is its position in the table of digits; a 2-digit group read
  in base 16 is a byte.
\<close>

definition position :: "code_unit \<Rightarrow> jsstring \<Rightarrow> nat" where
  "position c tab = length (takeWhile (\<lambda>d. d \<noteq> c) tab)"

definition upper_digits :: jsstring where
  "upper_digits = js ''0123456789ABCDEF''"

definition lower_digits :: jsstring where
  "lower_digits = js ''0123456789abcdef''"

definition hex_value :: "code_unit \<Rightarrow> int" where
  "hex_value c =
     int (if c \<in> set upper_digits then position c upper_digits else position c lower_digits)"

definition base16_byte :: "code_unit \<Rightarrow> code_unit \<Rightarrow> int" where
  "base16_byte h l = 16 * hex_value h + hex_value l"

text \<open>
  \<open>hexToRgb\<close> as the specification words it: the bytes of the three groups if the whole
  string matches the pattern, no match otherwise.
\<close>

definition spec_hexToRgb :: "jsstring \<Rightarrow> rgb option" where
  "spec_hexToRgb s =
     (if matches_hex6 s
      then let ds = drop (length s - 6) s
           in Some \<lparr>rgb_r = base16_byte (ds ! 0) (ds ! 1), rgb_g = base16_byte (ds ! 2) (ds ! 3),
                   rgb_b = base16_byte (ds ! 4) (ds ! 5)\<rparr>
      else None)"

text \<open>
  A channel as a 2-digit hexadecimal number over a table of digits, and the form of
  \<open>rgbToHex\<close> as the specification words it: \<^verbatim>\<open>#\<close> and three 2-digit upper-case groups.
\<close>

definition two_digit_hex :: "jsstring \<Rightarrow> int \<Rightarrow> jsstring" where
  "two_digit_hex tab v = [tab ! (nat v div 16), tab ! (nat v mod 16)]"

definition spec_rgbToHex :: "int \<Rightarrow> int \<Rightarrow> int \<Rightarrow> jsstring" where
  "spec_rgbToHex r g b =
     35 # two_digit_hex upper_digits r @ two_digit_hex upper_digits g @ two_digit_hex upper_digits b"

text \<open>
  Three integers separated by a comma and white space, found at position \<open>n\<close> of a
  string: three non-empty runs of digits, a comma and any white space after the first
  and after the second, and the third run not followed by a further digit. The scan
  reports the occurrence at the least position that has one.
\<close>

definition digit_string :: "jsstring \<Rightarrow> bool" where
  "digit_string ds \<longleftrightarrow> ds \<noteq> [] \<and> list_all is_digit ds"

definition no_digit_first :: "jsstring \<Rightarrow> bool" where
  "no_digit_first t = (case t of [] \<Rightarrow> True | c # _ \<Rightarrow> \<not> is_digit c)"

definition triple_here :: "jsstring \<Rightarrow> jsstring \<times> jsstring \<times> jsstring \<Rightarrow> bool" where
  "triple_here t m \<longleftrightarrow>
     (\<exists>w1 w2 post.
        t = fst m @ 44 # w1 @ fst (snd m) @ 44 # w2 @ snd (snd m) @ post \<and>
        digit_string (fst m) \<and> digit_string (fst (snd m)) \<and> digit_string (snd (snd m)) \<and>
        list_all is_space w1 \<and> list_all is_space w2 \<and> no_digit_first post)"

definition first_triple :: "jsstring \<Rightarrow> jsstring \<times> jsstring \<times> jsstring \<Rightarrow> bool" where
  "first_triple s m \<longleftrightarrow>
     (\<exists>n. n \<le> length s \<and> triple_here (drop n s) m \<and>
          (\<forall>k m'. k < n \<longrightarrow> \<not> triple_here (drop k s) m'))"

text \<open>The integer that a run of decimal digits denotes.\<close>

definition decimal :: "jsstring \<Rightarrow> int" where
  "decimal ds = (\<Sum>i<length ds. (uint (ds ! i) - 48) * 10 ^ (length ds - Suc i))"

text \<open>
  The inputs the specification accepts under each declared format: the whole-string
  pattern for \<open>Hex\<close>; for \<open>Rgb\<close> and \<open>Ycbcr\<close> the scan finds three integers and each lies in
  the range of the format.
\<close>

definition valid_input :: "input_type \<Rightarrow> jsstring \<Rightarrow> bool" where
  "valid_input t s =
     (case t of
        Hex \<Rightarrow> matches_hex6 s
      | Rgb \<Rightarrow>
          (\<exists>d1 d2 d3. first_triple s (d1, d2, d3) \<and>
             0 \<le> decimal d1 \<and> decimal d1 \<le> 255 \<and> 0 \<le> decimal d2 \<and> decimal d2 \<le> 255 \<and>
             0 \<le> decimal d3 \<and> decimal d3 \<le> 255)
      | Ycbcr \<Rightarrow>
          (\<exists>d1 d2 d3. first_triple s (d1, d2, d3) \<and>
             16 \<le> decimal d1 \<and> decimal d1 \<le> 235 \<and> 16 \<le> decimal d2 \<and> decimal d2 \<le> 240 \<and>
             16 \<le> decimal d3 \<and> decimal d3 \<le> 240))"

text \<open>The states whose current colour is \<^verbatim>\<open>#\<close> and six hex digits.\<close>

definition color_ok :: "state \<Rightarrow> bool" where
  "color_ok st \<longleftrightarrow>
     (\<exists>ds. currentColor st = 35 # ds \<and> length ds = 6 \<and> set ds \<subseteq> hex_chars)"

text \<open>
  The conversion formulas in exact arithmetic, rounding to the nearest integer with
  ties going up, clamping, and the two conversions as the specification words them.
\<close>

definition y_exact :: "int \<Rightarrow> int \<Rightarrow> int \<Rightarrow> rat" where
  "y_exact r g b = 299 / 1000 * of_int r + 587 / 1000 * of_int g + 114 / 1000 * of_int b"

definition cb_exact :: "int \<Rightarrow> int \<Rightarrow> int \<Rightarrow> rat" where
  "cb_exact r g b =
     128 - 168736 / 1000000 * of_int r - 331264 / 1000000 * of_int g + 5 / 10 * of_int b"

definition cr_exact :: "int \<Rightarrow> int \<Rightarrow> int \<Rightarrow> rat" where
  "cr_exact r g b =
     128 + 5 / 10 * of_int r - 418688 / 1000000 * of_int g - 81312 / 1000000 * of_int b"

definition r_exact :: "int \<Rightarrow> int \<Rightarrow> int \<Rightarrow> rat" where
  "r_exact y cb cr = 1164 / 1000 * of_int (y - 16) + 1596 / 1000 * of_int (cr - 128)"

definition g_exact :: "int \<Rightarrow> int \<Rightarrow> int \<Rightarrow> rat" where
  "g_exact y cb cr =
     1164 / 1000 * of_int (y - 16) - 392 / 1000 * of_int (cb - 128) - 813 / 1000 * of_int (cr - 128)"

definition b_exact :: "int \<Rightarrow> int \<Rightarrow> int \<Rightarrow> rat" where
  "b_exact y cb cr = 1164 / 1000 * of_int (y - 16) + 2017 / 1000 * of_int (cb - 128)"

definition round_half_up :: "rat \<Rightarrow> int" where
  "round_half_up x = \<lfloor>x + 1 / 2\<rfloor>"

definition clamp :: "int \<Rightarrow> int \<Rightarrow> int \<Rightarrow> int" where
  "clamp lo hi n = max lo (min hi n)"

definition spec_rgbToYcbcr :: "int \<Rightarrow> int \<Rightarrow> int \<Rightarrow> ycbcr" where
  "spec_rgbToYcbcr r g b =
     \<lparr>ycbcr_y = clamp 16 235 (round_half_up (y_exact r g b)),
      ycbcr_cb = clamp 16 240 (round_half_up (cb_exact r g b)),
      ycbcr_cr = clamp 16 240 (round_half_up (cr_exact r g b))\<rparr>"

definition spec_ycbcrToRgb :: "int \<Rightarrow> int \<Rightarrow> int \<Rightarrow> rgb" where
  "spec_ycbcrToRgb y cb cr =
     \<lparr>rgb_r = clamp 0 255 (round_half_up (r_exact y cb cr)),
      rgb_g = clamp 0 255 (round_half_up (g_exact y cb cr)),
      rgb_b = clamp 0 255 (round_half_up (b_exact y cb cr))\<rparr>"

text \<open>
  An integer nearest to \<open>x\<close>: at most one half away. It is unique unless \<open>x\<close> is a tie,
  halfway between two integers.
\<close>

definition nearest :: "int \<Rightarrow> rat \<Rightarrow> bool" where
  "nearest n x \<longleftrightarrow> \<bar>of_int n - x\<bar> \<le> 1 / 2"

definition tie :: "rat \<Rightarrow> bool" where
  "tie x \<longleftrightarrow> x - of_int \<lfloor>x\<rfloor> = 1 / 2"

text \<open>
  A bound on the rounding error of one operation whose exact result has magnitude at
  most 1024: half a unit in the 53rd binary place.
\<close>

definition eps :: rat where
  "eps = 1 / 2 ^ 43"

section \<open>Properties\<close>

subsection \<open>Shifts and hexadecimal digits\<close>

lemma shl_byte: "0 \<le> x \<Longrightarrow> x \<le> 255 \<Longrightarrow> k \<le> 16 \<Longrightarrow> shl x k = x * 2 ^ k"
proof -
  assume a: "0 \<le> x" "x \<le> 255" "k \<le> 16"
  have "(2::int) ^ k \<le> 2 ^ 16" using a(3) by (intro power_increasing) simp_all
  then have "x * 2 ^ k \<le> 255 * 2 ^ 16" using a by (intro mult_mono) simp_all
  moreover have "0 \<le> x * 2 ^ k" using a by simp
  ultimately show ?thesis
    by (simp add: shl_def toInt32_def)
qed

lemma shl_1_24: "shl 1 24 = 16777216"
  by (simp add: shl_def toInt32_def)

lemma hex_digits_step:
  "0 < n \<Longrightarrow> d < 16 \<Longrightarrow> hex_digits (16 * n + d) = hex_digits n @ [hex_digit d]"
  by (subst hex_digits.simps) simp

lemma hex_digits_small: "d < 16 \<Longrightarrow> hex_digits d = [hex_digit d]"
  by (subst hex_digits.simps) simp

lemma nat_less_16_cases:
  "d < 16 \<Longrightarrow> d = 0 \<or> d = 1 \<or> d = 2 \<or> d = 3 \<or> d = 4 \<or> d = 5 \<or> d = 6 \<or> d = 7 \<or> d = 8 \<or> d = 9 \<or>
     d = 10 \<or> d = 11 \<or> d = 12 \<or> d = 13 \<or> d = 14 \<or> d = (15::nat)"
  by arith

lemma is_hex_hex_digit: "d < 16 \<Longrightarrow> is_hex (hex_digit d)"
  by (drule nat_less_16_cases) (auto simp: is_hex_def is_digit_def hex_digit_def)

lemma digit_value_hex_digit: "d < 16 \<Longrightarrow> digit_value (hex_digit d) = int d"
  by (drule nat_less_16_cases) (auto simp: digit_value_def hex_digit_def)

lemma hex_digit_lower: "d < 16 \<Longrightarrow> hex_digit d = lower_digits ! d"
  by (drule nat_less_16_cases) (auto simp: hex_digit_def lower_digits_def js_def)

lemma upper_of_lower:
  "d < 16 \<Longrightarrow>
   (if 97 \<le> lower_digits ! d \<and> lower_digits ! d \<le> 122 then lower_digits ! d - 32
    else lower_digits ! d) = upper_digits ! d"
  by (drule nat_less_16_cases) (auto simp: upper_digits_def lower_digits_def js_def)

text \<open>The seven digits of \<open>2 ^ 24 + r * 2 ^ 16 + g * 2 ^ 8 + b\<close>, one division at a time.\<close>

lemma packed_digits:
  fixes r g b :: nat
  assumes "r < 256" "g < 256" "b < 256"
  shows "hex_digits (16777216 + r * 65536 + g * 256 + b) =
    [hex_digit 1, hex_digit (r div 16), hex_digit (r mod 16), hex_digit (g div 16),
     hex_digit (g mod 16), hex_digit (b div 16), hex_digit (b mod 16)]"
proof -
  define n1 where "n1 = 16 * 1 + r div 16"
  define n2 where "n2 = 16 * n1 + r mod 16"
  define n3 where "n3 = 16 * n2 + g div 16"
  define n4 where "n4 = 16 * n3 + g mod 16"
  define n5 where "n5 = 16 * n4 + b div 16"
  define n6 where "n6 = 16 * n5 + b mod 16"
  have d: "r div 16 < 16" "r mod 16 < 16" "g div 16 < 16" "g mod 16 < 16"
    "b div 16 < 16" "b mod 16 < 16"
    using assms by simp_all
  have pos: "0 < n1" "0 < n2" "0 < n3" "0 < n4" "0 < n5"
    by (simp_all add: n1_def n2_def n3_def n4_def n5_def)
  have "hex_digits n1 = [hex_digit 1, hex_digit (r div 16)]"
    unfolding n1_def by (subst hex_digits_step) (simp_all add: d hex_digits_small)
  then have "hex_digits n2 = [hex_digit 1, hex_digit (r div 16), hex_digit (r mod 16)]"
    unfolding n2_def by (simp add: hex_digits_step pos d)
  then have "hex_digits n3 =
      [hex_digit 1, hex_digit (r div 16), hex_digit (r mod 16), hex_digit (g div 16)]"
    unfolding n3_def by (simp add: hex_digits_step pos d)
  then have "hex_digits n4 =
      [hex_digit 1, hex_digit (r div 16), hex_digit (r mod 16), hex_digit (g div 16),
       hex_digit (g mod 16)]"
    unfolding n4_def by (simp add: hex_digits_step pos d)
  then have "hex_digits n5 =
      [hex_digit 1, hex_digit (r div 16), hex_digit (r mod 16), hex_digit (g div 16),
       hex_digit (g mod 16), hex_digit (b div 16)]"
    unfolding n5_def by (simp add: hex_digits_step pos d)
  then have "hex_digits n6 =
      [hex_digit 1, hex_digit (r div 16), hex_digit (r mod 16), hex_digit (g div 16),
       hex_digit (g mod 16), hex_digit (b div 16), hex_digit (b mod 16)]"
    unfolding n6_def by (simp add: hex_digits_step pos d)
  moreover have "16777216 + r * 65536 + g * 256 + b = n6"
    by (simp add: n1_def n2_def n3_def n4_def n5_def n6_def)
  ultimately show ?thesis by simp
qed

lemma two_digit_hex_lower:
  "0 \<le> v \<Longrightarrow> v \<le> 255 \<Longrightarrow>
   two_digit_hex lower_digits v = [hex_digit (nat v div 16), hex_digit (nat v mod 16)]"
  by (simp add: two_digit_hex_def hex_digit_lower)

lemma rgbToHex_digits:
  assumes "0 \<le> r" "r \<le> 255" "0 \<le> g" "g \<le> 255" "0 \<le> b" "b \<le> 255"
  shows "rgbToHex r g b =
    35 # two_digit_hex lower_digits r @ two_digit_hex lower_digits g @ two_digit_hex lower_digits b"
proof -
  have "shl 1 24 + shl r 16 + shl g 8 + b = int (16777216 + nat r * 65536 + nat g * 256 + nat b)"
    using assms by (simp add: shl_byte shl_1_24)
  moreover have "nat r < 256" "nat g < 256" "nat b < 256" using assms by simp_all
  ultimately have "toString16 (shl 1 24 + shl r 16 + shl g 8 + b) =
      hex_digit 1 # two_digit_hex lower_digits r @ two_digit_hex lower_digits g @
        two_digit_hex lower_digits b"
    using assms
    by (simp add: toString16_def packed_digits two_digit_hex_lower del: of_nat_add of_nat_mult)
  then show ?thesis by (simp add: rgbToHex_def)
qed

lemma parseInt_pair: "parseInt [h, l] 16 = 16 * digit_value h + digit_value l"
  by (simp add: parseInt_def)

lemma parseInt_two_digits:
  assumes "0 \<le> v" "v \<le> 255"
  shows "parseInt (two_digit_hex lower_digits v) 16 = v"
proof -
  have "nat v div 16 < 16" "nat v mod 16 < 16" using assms by simp_all
  then have "parseInt (two_digit_hex lower_digits v) 16 = 16 * int (nat v div 16) + int (nat v mod 16)"
    using assms by (simp add: two_digit_hex_lower parseInt_pair digit_value_hex_digit)
  also have "\<dots> = v" using assms by (simp add: zdiv_int zmod_int)
  finally show ?thesis .
qed

lemma list_all_two_digits:
  "0 \<le> v \<Longrightarrow> v \<le> 255 \<Longrightarrow> list_all is_hex (two_digit_hex lower_digits v)"
  by (simp add: two_digit_hex_lower is_hex_hex_digit)

lemma length_two_digit_hex: "length (two_digit_hex tab v) = 2"
  by (simp add: two_digit_hex_def)

lemma hexToRgb_rgbToHex:
  assumes "0 \<le> r" "r \<le> 255" "0 \<le> g" "g \<le> 255" "0 \<le> b" "b \<le> 255"
  shows "hexToRgb (rgbToHex r g b) = Some \<lparr>rgb_r = r, rgb_g = g, rgb_b = b\<rparr>"
proof -
  let ?R = "two_digit_hex lower_digits r" and ?G = "two_digit_hex lower_digits g"
    and ?B = "two_digit_hex lower_digits b"
  have all: "list_all is_hex ?R" "list_all is_hex ?G" "list_all is_hex ?B"
    using assms by (simp_all add: list_all_two_digits)
  have "hex_groups is_hex (?R @ ?G @ ?B) = Some (?R, ?G, ?B)"
    using all by (simp add: hex_groups_def length_two_digit_hex)
  then have "hex_exec is_hex (35 # ?R @ ?G @ ?B) = Some (?R, ?G, ?B)"
    by (simp add: hex_exec_def startsWith_hash_def)
  then show ?thesis
    using assms by (simp add: hexToRgb_def rgbToHex_digits parseInt_two_digits)
qed

text \<open>
  Claim C2. For r, g and b in 0..255, \<open>hexToRgb (rgbToHex r g b)\<close> succeeds and returns
  exactly the triple (r, g, b): the round trip from RGB through HEX loses nothing.
\<close>

theorem hex_rgb_roundtrip:
  assumes "0 \<le> r" "r \<le> 255" "0 \<le> g" "g \<le> 255" "0 \<le> b" "b \<le> 255"
  shows "hexToRgb (rgbToHex r g b) = Some \<lparr>rgb_r = r, rgb_g = g, rgb_b = b\<rparr>"
  using assms by (rule hexToRgb_rgbToHex)

theorem hex_rgb_roundtrip_witness:
  "rgbToHex 59 130 246 = js ''#3b82f6'' \<and>
   hexToRgb (rgbToHex 59 130 246) = Some \<lparr>rgb_r = 59, rgb_g = 130, rgb_b = 246\<rparr> \<and>
   hexToRgb (rgbToHex 0 0 0) = Some \<lparr>rgb_r = 0, rgb_g = 0, rgb_b = 0\<rparr> \<and>
   hexToRgb (rgbToHex 255 255 255) = Some \<lparr>rgb_r = 255, rgb_g = 255, rgb_b = 255\<rparr>"
proof -
  have "rgbToHex 59 130 246 = js ''#3b82f6''"
    by (simp add: js_def rgbToHex_def toString16_def shl_def toInt32_def hex_digits.simps
        hex_digit_def)
  then show ?thesis
    using hex_rgb_roundtrip[of 59 130 246] hex_rgb_roundtrip[of 0 0 0]
      hex_rgb_roundtrip[of 255 255 255]
    by simp
qed

subsection \<open>The form of \<open>rgbToHex\<close>\<close>

lemma toUpperCase_two:
  "0 \<le> v \<Longrightarrow> v \<le> 255 \<Longrightarrow>
   toUpperCase (two_digit_hex lower_digits v) = two_digit_hex upper_digits v"
  by (simp add: toUpperCase_def two_digit_hex_def upper_of_lower)

lemma toUpperCase_append: "toUpperCase (s @ t) = toUpperCase s @ toUpperCase t"
  by (simp add: toUpperCase_def)

lemma toUpperCase_hash: "toUpperCase (35 # s) = 35 # toUpperCase s"
  by (simp add: toUpperCase_def)

text \<open>
  Claim C3, as stated: for r, g and b in 0..255, \<open>rgbToHex r g b\<close> is \<^verbatim>\<open>#\<close> followed by
  each channel as a 2-digit upper-case hexadecimal number. It fails at (255, 255, 255):
  \<^verbatim>\<open>toString(16)\<close> writes lower-case digits, so the result is \<^verbatim>\<open>#ffffff\<close>.
\<close>

theorem rgbToHex_uppercase_counterexample:
  "rgbToHex 255 255 255 = js ''#ffffff'' \<and> spec_rgbToHex 255 255 255 = js ''#FFFFFF'' \<and>
   rgbToHex 255 255 255 \<noteq> spec_rgbToHex 255 255 255"
  by (simp add: js_def rgbToHex_def toString16_def shl_def toInt32_def hex_digits.simps
      hex_digit_def spec_rgbToHex_def two_digit_hex_def upper_digits_def)

text \<open>
  Claim C3, amended. For r, g and b in 0..255, \<open>rgbToHex r g b\<close> is \<^verbatim>\<open>#\<close> followed by each
  channel as a 2-digit lower-case hexadecimal number; the upper-case form of the
  specification is what \<open>toUpperCase\<close> makes of it, which is how \<open>colorInfo\<close> displays the
  current colour.
\<close>

theorem rgbToHex_lowercase:
  assumes "0 \<le> r" "r \<le> 255" "0 \<le> g" "g \<le> 255" "0 \<le> b" "b \<le> 255"
  shows "rgbToHex r g b =
      35 # two_digit_hex lower_digits r @ two_digit_hex lower_digits g @ two_digit_hex lower_digits b
    \<and> toUpperCase (rgbToHex r g b) = spec_rgbToHex r g b"
  using assms
  by (simp add: rgbToHex_digits toUpperCase_hash toUpperCase_append toUpperCase_two
      spec_rgbToHex_def)

theorem rgbToHex_lowercase_witness:
  "rgbToHex 59 130 246 = js ''#3b82f6'' \<and> toUpperCase (rgbToHex 59 130 246) = js ''#3B82F6''"
  using rgbToHex_lowercase[of 59 130 246]
  by (simp add: two_digit_hex_def lower_digits_def upper_digits_def spec_rgbToHex_def js_def
      toUpperCase_def)

subsection \<open>The language of \<open>hexToRgb\<close>\<close>

lemma is_hex_iff: "is_hex c \<longleftrightarrow> c \<in> hex_chars"
  unfolding is_hex_def is_digit_def hex_chars_def js_def
  by simp unat_arith

lemma is_hex_class_iff: "is_hex_class c \<longleftrightarrow> c \<in> hex_chars"
  unfolding is_hex_class_def hex_chars_def js_def
  by simp unat_arith

lemma digit_value_hex_value: "c \<in> hex_chars \<Longrightarrow> digit_value c = hex_value c"
  unfolding hex_chars_def js_def
  by (auto simp: digit_value_def hex_value_def position_def upper_digits_def lower_digits_def js_def)

lemma hash_not_hex: "35 \<notin> hex_chars"
  by (simp add: hex_chars_def js_def)

lemma list_all_hex_chars:
  "(\<And>c. cls c \<longleftrightarrow> c \<in> hex_chars) \<Longrightarrow> list_all cls s \<longleftrightarrow> set s \<subseteq> hex_chars"
  by (auto simp: list_all_iff)

lemma hex_exec_None:
  assumes cls: "\<And>c. cls c \<longleftrightarrow> c \<in> hex_chars" and "\<not> matches_hex6 s"
  shows "hex_exec cls s = None"
proof -
  have a: "hex_groups cls s = None"
    using assms(2) by (auto simp: hex_groups_def matches_hex6_def list_all_hex_chars[OF cls])
  have b: "hex_groups cls (tl s) = None" if "startsWith_hash s"
  proof -
    from that obtain t where "s = 35 # t" by (cases s) (auto simp: startsWith_hash_def)
    then show ?thesis
      using assms(2) by (auto simp: hex_groups_def matches_hex6_def list_all_hex_chars[OF cls])
  qed
  show ?thesis using a b by (simp add: hex_exec_def)
qed

lemma six_list: "length ds = 6 \<Longrightarrow> \<exists>a b c d e f. ds = [a, b, c, d, e, f]"
  by (auto simp: length_Suc_conv eval_nat_numeral)

lemma hex_exec_Some:
  assumes cls: "\<And>c. cls c \<longleftrightarrow> c \<in> hex_chars" and "matches_hex6 s"
  shows "\<exists>a b c d e f. drop (length s - 6) s = [a, b, c, d, e, f] \<and>
     set [a, b, c, d, e, f] \<subseteq> hex_chars \<and> hex_exec cls s = Some ([a, b], [c, d], [e, f])"
proof -
  from assms(2) obtain ds
    where ds: "s = ds \<or> s = 35 # ds" "length ds = 6" "set ds \<subseteq> hex_chars"
    by (auto simp: matches_hex6_def)
  obtain a b c d e f where l: "ds = [a, b, c, d, e, f]"
    using six_list[OF ds(2)] by blast
  have g: "hex_groups cls ds = Some ([a, b], [c, d], [e, f])"
    using ds(3) by (simp add: hex_groups_def l cls)
  from ds(1) have "hex_exec cls s = Some ([a, b], [c, d], [e, f])"
  proof
    assume s: "s = ds"
    have "\<not> startsWith_hash ds"
      using ds(3) hash_not_hex by (auto simp: startsWith_hash_def l)
    then show ?thesis using g s by (simp add: hex_exec_def)
  next
    assume s: "s = 35 # ds"
    then show ?thesis using g by (simp add: hex_exec_def startsWith_hash_def)
  qed
  moreover have "drop (length s - 6) s = ds" using ds(1,2) by auto
  ultimately have "drop (length s - 6) s = [a, b, c, d, e, f] \<and>
     set [a, b, c, d, e, f] \<subseteq> hex_chars \<and> hex_exec cls s = Some ([a, b], [c, d], [e, f])"
    using l ds(3) by simp
  then show ?thesis by (intro exI)
qed

lemma hex_test_iff: "hex_test s \<longleftrightarrow> matches_hex6 s"
proof (cases "matches_hex6 s")
  case False
  then show ?thesis by (simp add: hex_test_def hex_exec_None is_hex_class_iff)
next
  case True
  then show ?thesis
    using hex_exec_Some[of is_hex_class s, OF is_hex_class_iff True] by (auto simp: hex_test_def)
qed

lemma hexToRgb_eq_spec: "hexToRgb s = spec_hexToRgb s"
proof (cases "matches_hex6 s")
  case False
  then show ?thesis
    by (simp add: hexToRgb_def spec_hexToRgb_def hex_exec_None is_hex_iff)
next
  case True
  obtain a b c d e f where l: "drop (length s - 6) s = [a, b, c, d, e, f]"
    and sub: "set [a, b, c, d, e, f] \<subseteq> hex_chars"
    and ex: "hex_exec is_hex s = Some ([a, b], [c, d], [e, f])"
    using hex_exec_Some[of is_hex s, OF is_hex_iff True] by blast
  have v: "digit_value a = hex_value a" "digit_value b = hex_value b"
    "digit_value c = hex_value c" "digit_value d = hex_value d"
    "digit_value e = hex_value e" "digit_value f = hex_value f"
    using sub by (simp_all add: digit_value_hex_value)
  show ?thesis
    using True l v ex by (simp add: hexToRgb_def spec_hexToRgb_def parseInt_pair base16_byte_def)
qed

text \<open>
  Claim C6. For every string \<open>s\<close>, \<open>hexToRgb s\<close> returns the three 2-digit groups read as
  base-16 bytes if and only if the whole of \<open>s\<close> matches \<^verbatim>\<open>^#?[0-9A-Fa-f]{6}$\<close>, and
  reports no match for every other string (3-digit shorthand and 5-digit input among
  them); the test of the pattern in \<open>validateAndConvertColor\<close> accepts the same strings.
\<close>

theorem hexToRgb_whole_string:
  "hexToRgb s = spec_hexToRgb s \<and> (hexToRgb s \<noteq> None \<longleftrightarrow> matches_hex6 s) \<and>
   (hex_test s \<longleftrightarrow> matches_hex6 s)"
  by (simp add: hexToRgb_eq_spec hex_test_iff spec_hexToRgb_def)

theorem hexToRgb_whole_string_witness:
  "hexToRgb (js ''3b82f6'') = Some \<lparr>rgb_r = 59, rgb_g = 130, rgb_b = 246\<rparr> \<and>
   matches_hex6 (js ''3b82f6'') \<and>
   hexToRgb (js ''#3B82F6'') = Some \<lparr>rgb_r = 59, rgb_g = 130, rgb_b = 246\<rparr> \<and>
   matches_hex6 (js ''#3B82F6'') \<and>
   hexToRgb (js ''3B82F'') = None \<and> \<not> matches_hex6 (js ''3B82F'') \<and>
   hexToRgb (js ''#FFF'') = None \<and> \<not> matches_hex6 (js ''#FFF'')"
proof -
  have e: "hexToRgb (js ''3b82f6'') = Some \<lparr>rgb_r = 59, rgb_g = 130, rgb_b = 246\<rparr>"
    "hexToRgb (js ''#3B82F6'') = Some \<lparr>rgb_r = 59, rgb_g = 130, rgb_b = 246\<rparr>"
    "hexToRgb (js ''3B82F'') = None" "hexToRgb (js ''#FFF'') = None"
    by (simp_all add: hexToRgb_def hex_exec_def hex_groups_def startsWith_hash_def js_def
        is_hex_def is_digit_def parseInt_def digit_value_def)
  show ?thesis
    using e hexToRgb_whole_string[of "js ''3b82f6''"] hexToRgb_whole_string[of "js ''#3B82F6''"]
      hexToRgb_whole_string[of "js ''3B82F''"] hexToRgb_whole_string[of "js ''#FFF''"]
    by auto
qed

subsection \<open>Evaluating the arithmetic on numerals\<close>

lemma floor_rat_numeral:
  "\<lfloor>numeral a / numeral b :: rat\<rfloor> = numeral a div numeral b"
  using floor_divide_of_int_eq[of "numeral a" "numeral b", where ?'a = rat] by simp

lemma floor_rat_neg_numeral:
  "\<lfloor>- (numeral a / numeral b) :: rat\<rfloor> = - numeral a div numeral b"
  using floor_divide_of_int_eq[of "- numeral a" "numeral b", where ?'a = rat] by simp

lemma ceiling_rat_numeral:
  "\<lceil>numeral a / numeral b :: rat\<rceil> = - (- numeral a div numeral b)"
  unfolding ceiling_def using floor_rat_neg_numeral by simp

lemma ceiling_rat_neg_numeral:
  "\<lceil>- (numeral a / numeral b) :: rat\<rceil> = - (numeral a div numeral b)"
  unfolding ceiling_def using floor_rat_numeral by simp

lemma ilog2_small: "n < 2 \<Longrightarrow> ilog2 n = 0"
  by (simp add: ilog2.simps)

lemma ilog2_step: "2 \<le> n \<Longrightarrow> ilog2 n = Suc (ilog2 (n div 2))"
  by (subst ilog2.simps) simp

lemmas number_eval =
  floor_rat_numeral floor_rat_neg_numeral ceiling_rat_numeral ceiling_rat_neg_numeral
  fmul_def fadd_def fsub_def lit_def fl_def exponent_def ilog2_small ilog2_step pow2_def
  round_half_even_def Let_def Math_round_def Math_max_def Math_min_def

subsection \<open>The range of \<open>rgbToYcbcr\<close>\<close>

lemma Math_round_clamped:
  assumes "lo \<le> hi"
  shows "lo \<le> Math_round (Math_max (of_int lo) (Math_min (of_int hi) x))"
    and "Math_round (Math_max (of_int lo) (Math_min (of_int hi) x)) \<le> hi"
proof -
  let ?c = "Math_max (of_int lo) (Math_min (of_int hi) x)"
  have a: "of_int lo \<le> ?c" and b: "?c \<le> of_int hi"
    using assms by (auto simp: Math_max_def Math_min_def)
  show "lo \<le> Math_round ?c"
    unfolding Math_round_def using a by (simp add: le_floor_iff)
  have "?c + 1 / 2 < of_int (hi + 1)" using b by simp
  then have "\<lfloor>?c + 1 / 2\<rfloor> < hi + 1" by (simp only: floor_less_iff)
  then show "Math_round ?c \<le> hi" by (simp add: Math_round_def)
qed

text \<open>
  Claim C4. For r, g and b in 0..255, the result of \<open>rgbToYcbcr\<close> has y in 16..235 and
  cb and cr in 16..240, also at the extremes (0, 0, 0) and (255, 255, 255).
\<close>

theorem rgbToYcbcr_range:
  assumes "0 \<le> r" "r \<le> 255" "0 \<le> g" "g \<le> 255" "0 \<le> b" "b \<le> 255"
  shows "16 \<le> ycbcr_y (rgbToYcbcr r g b) \<and> ycbcr_y (rgbToYcbcr r g b) \<le> 235 \<and>
         16 \<le> ycbcr_cb (rgbToYcbcr r g b) \<and> ycbcr_cb (rgbToYcbcr r g b) \<le> 240 \<and>
         16 \<le> ycbcr_cr (rgbToYcbcr r g b) \<and> ycbcr_cr (rgbToYcbcr r g b) \<le> 240"
  using Math_round_clamped[of 16 235] Math_round_clamped[of 16 240]
  by (simp add: rgbToYcbcr_def Let_def)

theorem rgbToYcbcr_range_witness:
  "rgbToYcbcr 0 0 0 = \<lparr>ycbcr_y = 16, ycbcr_cb = 128, ycbcr_cr = 128\<rparr> \<and>
   rgbToYcbcr 255 255 255 = \<lparr>ycbcr_y = 235, ycbcr_cb = 128, ycbcr_cr = 128\<rparr> \<and>
   16 \<le> ycbcr_y (rgbToYcbcr 0 0 0) \<and> ycbcr_y (rgbToYcbcr 255 255 255) \<le> 235 \<and>
   16 \<le> ycbcr_cb (rgbToYcbcr 0 0 255) \<and> ycbcr_cb (rgbToYcbcr 0 0 255) \<le> 240 \<and>
   16 \<le> ycbcr_cr (rgbToYcbcr 255 0 0) \<and> ycbcr_cr (rgbToYcbcr 255 0 0) \<le> 240"
proof -
  have "rgbToYcbcr 0 0 0 = \<lparr>ycbcr_y = 16, ycbcr_cb = 128, ycbcr_cr = 128\<rparr>"
    by (simp add: rgbToYcbcr_def number_eval)
  moreover have "rgbToYcbcr 255 255 255 = \<lparr>ycbcr_y = 235, ycbcr_cb = 128, ycbcr_cr = 128\<rparr>"
    by (simp add: rgbToYcbcr_def number_eval)
  ultimately show ?thesis
    using rgbToYcbcr_range[of 0 0 0] rgbToYcbcr_range[of 255 255 255]
      rgbToYcbcr_range[of 0 0 255] rgbToYcbcr_range[of 255 0 0]
    by simp
qed

subsection \<open>Switching the format\<close>

text \<open>
  Claim C9. In every state, switching the declared input format empties the raw input
  text and leaves the current colour, and with it the displayed HEX, RGB and YCbCr
  values, unchanged.
\<close>

theorem select_type_resets_input:
  assumes "t \<noteq> inputType st"
  shows "colorInput (select_type t st) = [] \<and> inputType (select_type t st) = t \<and>
         currentColor (select_type t st) = currentColor st \<and>
         colorInfo (select_type t st) = colorInfo st"
  using assms by (simp add: select_type_def colorInfo_def split: option.splits)

theorem select_type_resets_input_witness:
  "colorInput (select_type Rgb (initial\<lparr>colorInput := js ''#FF0000''\<rparr>)) = [] \<and>
   inputType (select_type Rgb (initial\<lparr>colorInput := js ''#FF0000''\<rparr>)) = Rgb \<and>
   currentColor (select_type Rgb (initial\<lparr>colorInput := js ''#FF0000''\<rparr>)) = js ''#3B82F6''"
  using select_type_resets_input[of Rgb "initial\<lparr>colorInput := js ''#FF0000''\<rparr>"]
  by (simp add: initial_def)

subsection \<open>The scan for three integers\<close>

lemma not_digit_comma: "\<not> is_digit 44" by (simp add: is_digit_def)

lemma digit_not_space: "is_digit c \<Longrightarrow> \<not> is_space c"
  unfolding is_digit_def is_space_def by unat_arith

lemma takeWhile_all: "list_all P xs \<Longrightarrow> takeWhile P (xs @ ys) = xs @ takeWhile P ys"
  by (induction xs) auto

lemma dropWhile_all: "list_all P xs \<Longrightarrow> dropWhile P (xs @ ys) = dropWhile P ys"
  by (induction xs) auto

lemma list_all_takeWhile: "list_all P (takeWhile P xs)"
  by (induction xs) auto

lemma no_digit_first_dropWhile: "no_digit_first (dropWhile is_digit t)"
  by (induction t) (auto simp: no_digit_first_def)

lemma takeWhile_no_digit_first: "no_digit_first t \<Longrightarrow> takeWhile is_digit t = []"
  by (cases t) (auto simp: no_digit_first_def)

lemma digits_comma_iff:
  "digits_comma t = Some (d, rest) \<longleftrightarrow> digit_string d \<and> t = d @ 44 # rest"
proof
  assume a: "digits_comma t = Some (d, rest)"
  then have "dropWhile is_digit t = 44 # rest" and d: "d = takeWhile is_digit t" and "d \<noteq> []"
    by (auto simp: digits_comma_def Let_def split: list.splits if_splits)
  moreover have "t = takeWhile is_digit t @ dropWhile is_digit t" by simp
  ultimately show "digit_string d \<and> t = d @ 44 # rest"
    by (simp add: digit_string_def list_all_takeWhile)
next
  assume "digit_string d \<and> t = d @ 44 # rest"
  then show "digits_comma t = Some (d, rest)"
    by (simp add: digits_comma_def digit_string_def takeWhile_all dropWhile_all not_digit_comma)
qed

lemma dropWhile_space_digits:
  assumes "list_all is_space w" "digit_string d"
  shows "dropWhile is_space (w @ d @ t) = d @ t" "takeWhile is_space (w @ d @ t) = w"
proof -
  from assms(2) obtain c cs where d: "d = c # cs" "is_digit c"
    by (cases d) (auto simp: digit_string_def)
  then have "\<not> is_space c" by (simp add: digit_not_space)
  then show "dropWhile is_space (w @ d @ t) = d @ t" "takeWhile is_space (w @ d @ t) = w"
    using assms(1) d by (simp_all add: dropWhile_all takeWhile_all)
qed

lemma split_space_digits:
  assumes "dropWhile is_space s = d @ t"
  shows "s = takeWhile is_space s @ d @ t" "list_all is_space (takeWhile is_space s)"
  using assms takeWhile_dropWhile_id[of is_space s] by (simp_all add: list_all_takeWhile)

lemma match_here_iff: "match_here t = Some m \<longleftrightarrow> triple_here t m"
proof
  assume a: "match_here t = Some m"
  obtain d1 d2 d3 where m: "m = (d1, d2, d3)" by (cases m) auto
  from a m obtain s2 s5 where
    c1: "digits_comma t = Some (d1, s2)" and
    c2: "digits_comma (dropWhile is_space s2) = Some (d2, s5)" and
    d3: "d3 = takeWhile is_digit (dropWhile is_space s5)" "d3 \<noteq> []"
    by (auto simp: match_here_def Let_def split: option.splits if_splits)
  define w1 where "w1 = takeWhile is_space s2"
  define w2 where "w2 = takeWhile is_space s5"
  define post where "post = dropWhile is_digit (dropWhile is_space s5)"
  from c1 have t: "t = d1 @ 44 # s2" and g1: "digit_string d1" by (simp_all add: digits_comma_iff)
  from c2 have "dropWhile is_space s2 = d2 @ 44 # s5" and g2: "digit_string d2"
    by (simp_all add: digits_comma_iff)
  then have s2: "s2 = w1 @ d2 @ 44 # s5"
    using takeWhile_dropWhile_id[of is_space s2] by (simp add: w1_def)
  have s5: "s5 = w2 @ d3 @ post"
    using takeWhile_dropWhile_id[of is_space s5]
      takeWhile_dropWhile_id[of is_digit "dropWhile is_space s5"]
    by (simp add: w2_def d3 post_def)
  have "t = d1 @ 44 # w1 @ d2 @ 44 # w2 @ d3 @ post" using t s2 s5 by simp
  moreover have "digit_string d3" using d3 by (simp add: digit_string_def list_all_takeWhile)
  moreover have "list_all is_space w1" "list_all is_space w2"
    by (simp_all add: w1_def w2_def list_all_takeWhile)
  moreover have "no_digit_first post" by (simp add: post_def no_digit_first_dropWhile)
  ultimately show "triple_here t m"
    unfolding triple_here_def m using g1 g2 by auto
next
  assume "triple_here t m"
  then obtain w1 w2 post where
    t: "t = fst m @ 44 # w1 @ fst (snd m) @ 44 # w2 @ snd (snd m) @ post" and
    g: "digit_string (fst m)" "digit_string (fst (snd m))" "digit_string (snd (snd m))" and
    w: "list_all is_space w1" "list_all is_space w2" and p: "no_digit_first post"
    by (auto simp: triple_here_def)
  have c1: "digits_comma t = Some (fst m, w1 @ fst (snd m) @ 44 # w2 @ snd (snd m) @ post)"
    using g(1) t by (simp add: digits_comma_iff)
  have c2: "digits_comma (dropWhile is_space (w1 @ fst (snd m) @ 44 # w2 @ snd (snd m) @ post)) =
      Some (fst (snd m), w2 @ snd (snd m) @ post)"
    using dropWhile_space_digits(1)[OF w(1) g(2)] g(2) by (simp add: digits_comma_iff)
  have c3: "takeWhile is_digit (dropWhile is_space (w2 @ snd (snd m) @ post)) = snd (snd m)"
    using dropWhile_space_digits(1)[OF w(2) g(3)] g(3) p
    by (simp add: takeWhile_all digit_string_def takeWhile_no_digit_first)
  show "match_here t = Some m"
    using c1 c2 c3 g(3) by (simp add: match_here_def digit_string_def)
qed

lemma match_here_Nil: "match_here [] = None"
  by (simp add: match_here_def digits_comma_def)

lemma match_triple_iff:
  "match_triple s = Some m \<longleftrightarrow>
     (\<exists>n. n \<le> length s \<and> match_here (drop n s) = Some m \<and> (\<forall>k<n. match_here (drop k s) = None))"
proof (induction s)
  case Nil
  then show ?case by (simp add: match_here_Nil)
next
  case (Cons c cs)
  show ?case
  proof (cases "match_here (c # cs)")
    case (Some m')
    have "(\<exists>n. n \<le> length (c # cs) \<and> match_here (drop n (c # cs)) = Some m \<and>
        (\<forall>k<n. match_here (drop k (c # cs)) = None)) \<longleftrightarrow> m' = m"
    proof
      assume "\<exists>n. n \<le> length (c # cs) \<and> match_here (drop n (c # cs)) = Some m \<and>
        (\<forall>k<n. match_here (drop k (c # cs)) = None)"
      then obtain n where n: "match_here (drop n (c # cs)) = Some m"
        "\<forall>k<n. match_here (drop k (c # cs)) = None" by blast
      have "n = 0"
      proof (rule ccontr)
        assume "n \<noteq> 0"
        then have "match_here (drop 0 (c # cs)) = None" using n(2) by blast
        then show False using Some by simp
      qed
      then show "m' = m" using n(1) Some by simp
    next
      assume "m' = m"
      then have "0 \<le> length (c # cs) \<and> match_here (drop 0 (c # cs)) = Some m \<and>
        (\<forall>k<0. match_here (drop k (c # cs)) = None)" using Some by simp
      then show "\<exists>n. n \<le> length (c # cs) \<and> match_here (drop n (c # cs)) = Some m \<and>
        (\<forall>k<n. match_here (drop k (c # cs)) = None)" by (rule exI)
    qed
    then show ?thesis using Some by simp
  next
    case None
    have "(\<exists>n. n \<le> length (c # cs) \<and> match_here (drop n (c # cs)) = Some m \<and>
        (\<forall>k<n. match_here (drop k (c # cs)) = None)) \<longleftrightarrow>
      (\<exists>n. n \<le> length cs \<and> match_here (drop n cs) = Some m \<and>
        (\<forall>k<n. match_here (drop k cs) = None))" (is "?L \<longleftrightarrow> ?R")
    proof
      assume ?L
      then obtain n where n: "n \<le> length (c # cs)" "match_here (drop n (c # cs)) = Some m"
        "\<forall>k<n. match_here (drop k (c # cs)) = None" by blast
      from n(2) None obtain n' where n': "n = Suc n'" by (cases n) auto
      have "\<forall>k<n'. match_here (drop k cs) = None"
      proof (intro allI impI)
        fix k assume "k < n'"
        then have "Suc k < n" using n' by simp
        then have "match_here (drop (Suc k) (c # cs)) = None" using n(3) by blast
        then show "match_here (drop k cs) = None" by simp
      qed
      then have "n' \<le> length cs \<and> match_here (drop n' cs) = Some m \<and>
        (\<forall>k<n'. match_here (drop k cs) = None)" using n n' by simp
      then show ?R by (rule exI)
    next
      assume ?R
      then obtain n where n: "n \<le> length cs" "match_here (drop n cs) = Some m"
        "\<forall>k<n. match_here (drop k cs) = None" by blast
      have "\<forall>k<Suc n. match_here (drop k (c # cs)) = None"
      proof (intro allI impI)
        fix k assume k: "k < Suc n"
        show "match_here (drop k (c # cs)) = None"
        proof (cases k)
          case 0 then show ?thesis using None by simp
        next
          case (Suc k') then show ?thesis using n(3) k by simp
        qed
      qed
      then have "Suc n \<le> length (c # cs) \<and> match_here (drop (Suc n) (c # cs)) = Some m \<and>
        (\<forall>k<Suc n. match_here (drop k (c # cs)) = None)" using n by simp
      then show ?L by (rule exI)
    qed
    then show ?thesis using None Cons.IH by simp
  qed
qed

lemma match_here_None_iff: "match_here t = None \<longleftrightarrow> (\<forall>m. \<not> triple_here t m)"
proof (cases "match_here t")
  case None
  then show ?thesis using match_here_iff[of t] by simp
next
  case (Some m)
  then have "triple_here t m" by (simp add: match_here_iff[symmetric])
  then have "\<not> (\<forall>m. \<not> triple_here t m)" by blast
  then show ?thesis using Some by simp
qed

lemma match_triple_first: "match_triple s = Some m \<longleftrightarrow> first_triple s m"
  unfolding match_triple_iff first_triple_def
  by (simp add: match_here_iff match_here_None_iff)

lemma decimal_snoc: "decimal (ds @ [c]) = 10 * decimal ds + (uint c - 48)"
proof -
  have "(\<Sum>i<length ds. (uint ((ds @ [c]) ! i) - 48) * 10 ^ (length (ds @ [c]) - Suc i)) =
        (\<Sum>i<length ds. 10 * ((uint (ds ! i) - 48) * 10 ^ (length ds - Suc i)))"
  proof (rule sum.cong)
    fix i assume "i \<in> {..<length ds}"
    then have i: "i < length ds" by simp
    then have "length (ds @ [c]) - Suc i = Suc (length ds - Suc i)" by simp
    then show "(uint ((ds @ [c]) ! i) - 48) * 10 ^ (length (ds @ [c]) - Suc i) =
        10 * ((uint (ds ! i) - 48) * 10 ^ (length ds - Suc i))"
      using i by (simp add: nth_append)
  qed simp
  then show ?thesis
    by (simp add: decimal_def sum_distrib_left)
qed

lemma parseInt_snoc: "parseInt (ds @ [c]) radix = parseInt ds radix * radix + digit_value c"
  by (simp add: parseInt_def)

lemma digit_value_digit: "is_digit c \<Longrightarrow> digit_value c = uint c - 48"
  by (simp add: digit_value_def is_digit_def)

lemma parseInt_decimal: "list_all is_digit ds \<Longrightarrow> parseInt ds 10 = decimal ds"
proof (induction ds rule: rev_induct)
  case Nil
  then show ?case by (simp add: parseInt_def decimal_def)
next
  case (snoc c ds)
  then show ?case by (simp add: parseInt_snoc decimal_snoc digit_value_digit)
qed

lemma first_triple_digits:
  "first_triple s (d1, d2, d3) \<Longrightarrow> list_all is_digit d1 \<and> list_all is_digit d2 \<and> list_all is_digit d3"
  by (auto simp: first_triple_def triple_here_def digit_string_def)

lemma first_triple_unique: "first_triple s m \<Longrightarrow> first_triple s m' \<Longrightarrow> m = m'"
  by (simp add: match_triple_first[symmetric])

lemma not_first_triple_Nil: "\<not> first_triple [] m"
  by (simp add: match_triple_first[symmetric])

lemma not_matches_hex6_Nil: "\<not> matches_hex6 []"
  by (auto simp: matches_hex6_def)

lemma validate_body_Rgb:
  assumes "inputType st = Rgb"
  shows "validate_body st =
    (case match_triple (colorInput st) of
       None \<Rightarrow> (None, st)
     | Some (d1, d2, d3) \<Rightarrow>
         if 0 \<le> decimal d1 \<and> decimal d1 \<le> 255 \<and> 0 \<le> decimal d2 \<and> decimal d2 \<le> 255 \<and>
            0 \<le> decimal d3 \<and> decimal d3 \<le> 255
         then (Some \<lparr>rgb_r = decimal d1, rgb_g = decimal d2, rgb_b = decimal d3\<rparr>,
               st\<lparr>currentColor := rgbToHex (decimal d1) (decimal d2) (decimal d3)\<rparr>)
         else (None, st))"
proof (cases "match_triple (colorInput st)")
  case None
  then show ?thesis using assms by (simp add: validate_body_def)
next
  case (Some m)
  obtain d1 d2 d3 where m: "m = (d1, d2, d3)" by (cases m) auto
  have "first_triple (colorInput st) (d1, d2, d3)" using Some m by (simp add: match_triple_first)
  then have d: "parseInt d1 10 = decimal d1" "parseInt d2 10 = decimal d2" "parseInt d3 10 = decimal d3"
    using first_triple_digits by (simp_all add: parseInt_decimal)
  have "colorInput st \<noteq> []" using Some by auto
  then show ?thesis using assms Some m d by (simp add: validate_body_def Let_def)
qed

lemma validate_body_Ycbcr:
  assumes "inputType st = Ycbcr"
  shows "validate_body st =
    (case match_triple (colorInput st) of
       None \<Rightarrow> (None, st)
     | Some (d1, d2, d3) \<Rightarrow>
         if 16 \<le> decimal d1 \<and> decimal d1 \<le> 235 \<and> 16 \<le> decimal d2 \<and> decimal d2 \<le> 240 \<and>
            16 \<le> decimal d3 \<and> decimal d3 \<le> 240
         then (Some (ycbcrToRgb (decimal d1) (decimal d2) (decimal d3)),
               st\<lparr>currentColor :=
                   rgbToHex (rgb_r (ycbcrToRgb (decimal d1) (decimal d2) (decimal d3)))
                     (rgb_g (ycbcrToRgb (decimal d1) (decimal d2) (decimal d3)))
                     (rgb_b (ycbcrToRgb (decimal d1) (decimal d2) (decimal d3)))\<rparr>)
         else (None, st))"
proof (cases "match_triple (colorInput st)")
  case None
  then show ?thesis using assms by (simp add: validate_body_def)
next
  case (Some m)
  obtain d1 d2 d3 where m: "m = (d1, d2, d3)" by (cases m) auto
  have "first_triple (colorInput st) (d1, d2, d3)" using Some m by (simp add: match_triple_first)
  then have d: "parseInt d1 10 = decimal d1" "parseInt d2 10 = decimal d2" "parseInt d3 10 = decimal d3"
    using first_triple_digits by (simp_all add: parseInt_decimal)
  have "colorInput st \<noteq> []" using Some by auto
  then show ?thesis using assms Some m d by (simp add: validate_body_def Let_def)
qed

lemma validate_body_Hex:
  assumes "inputType st = Hex"
  shows "validate_body st =
    (if matches_hex6 (colorInput st)
     then (spec_hexToRgb (colorInput st),
           st\<lparr>currentColor := (if startsWith_hash (colorInput st) then colorInput st else 35 # colorInput st)\<rparr>)
     else (None, st))"
proof (cases "matches_hex6 (colorInput st)")
  case False
  then show ?thesis using assms by (simp add: validate_body_def hex_test_iff)
next
  case True
  then obtain ds where ds: "colorInput st = ds \<or> colorInput st = 35 # ds" "length ds = 6" "set ds \<subseteq> hex_chars"
    by (auto simp: matches_hex6_def)
  let ?hex = "if startsWith_hash (colorInput st) then colorInput st else 35 # colorInput st"
  have ne: "colorInput st \<noteq> []" using ds by auto
  have nh: "\<not> startsWith_hash ds" using ds(2,3) hash_not_hex by (cases ds) (auto simp: startsWith_hash_def)
  have hex: "?hex = 35 # ds" using ds(1) nh by (auto simp: startsWith_hash_def)
  have m: "matches_hex6 ?hex" unfolding hex using ds by (auto simp: matches_hex6_def)
  have "drop (length ?hex - 6) ?hex = ds" unfolding hex using ds(2) by simp
  moreover have "drop (length (colorInput st) - 6) (colorInput st) = ds" using ds(1,2) by auto
  ultimately have "spec_hexToRgb ?hex = spec_hexToRgb (colorInput st)"
    using m True by (simp add: spec_hexToRgb_def)
  moreover have "spec_hexToRgb ?hex \<noteq> None" using m by (simp add: spec_hexToRgb_def Let_def)
  ultimately show ?thesis
    using assms True ne by (simp add: validate_body_def hex_test_iff hexToRgb_eq_spec Let_def)
qed

lemma accepted_iff_valid: "accepted st \<longleftrightarrow> valid_input (inputType st) (colorInput st)"
proof (cases "inputType st")
  case Hex
  then show ?thesis
    by (simp add: accepted_def validate_body_Hex valid_input_def spec_hexToRgb_def Let_def)
next
  case Rgb
  show ?thesis
  proof (cases "match_triple (colorInput st)")
    case None
    then have "\<And>m. \<not> first_triple (colorInput st) m" by (simp add: match_triple_first[symmetric])
    then show ?thesis using Rgb None by (simp add: accepted_def validate_body_Rgb valid_input_def)
  next
    case (Some m)
    obtain d1 d2 d3 where m: "m = (d1, d2, d3)" by (cases m) auto
    have "\<And>m'. first_triple (colorInput st) m' \<longleftrightarrow> m' = (d1, d2, d3)"
      using Some m by (auto simp: match_triple_first[symmetric])
    then show ?thesis using Rgb Some m
      by (simp add: accepted_def validate_body_Rgb valid_input_def)
  qed
next
  case Ycbcr
  show ?thesis
  proof (cases "match_triple (colorInput st)")
    case None
    then have "\<And>m. \<not> first_triple (colorInput st) m" by (simp add: match_triple_first[symmetric])
    then show ?thesis using Ycbcr None by (simp add: accepted_def validate_body_Ycbcr valid_input_def)
  next
    case (Some m)
    obtain d1 d2 d3 where m: "m = (d1, d2, d3)" by (cases m) auto
    have "\<And>m'. first_triple (colorInput st) m' \<longleftrightarrow> m' = (d1, d2, d3)"
      using Some m by (auto simp: match_triple_first[symmetric])
    then show ?thesis using Ycbcr Some m
      by (simp add: accepted_def validate_body_Ycbcr valid_input_def)
  qed
qed

subsection \<open>What \<open>validateAndConvertColor\<close> writes\<close>

lemma clamp_byte: "0 \<le> Math_max 0 (Math_min 255 (n::int)) \<and> Math_max 0 (Math_min 255 n) \<le> 255"
  by (simp add: Math_max_def Math_min_def)

lemma ycbcrToRgb_range:
  "0 \<le> rgb_r (ycbcrToRgb y cb cr) \<and> rgb_r (ycbcrToRgb y cb cr) \<le> 255 \<and>
   0 \<le> rgb_g (ycbcrToRgb y cb cr) \<and> rgb_g (ycbcrToRgb y cb cr) \<le> 255 \<and>
   0 \<le> rgb_b (ycbcrToRgb y cb cr) \<and> rgb_b (ycbcrToRgb y cb cr) \<le> 255"
  by (simp add: ycbcrToRgb_def Let_def clamp_byte)

lemma rgbToHex_shape:
  assumes "0 \<le> r" "r \<le> 255" "0 \<le> g" "g \<le> 255" "0 \<le> b" "b \<le> 255"
  shows "\<exists>ds. rgbToHex r g b = 35 # ds \<and> length ds = 6 \<and> set ds \<subseteq> hex_chars"
proof -
  let ?ds = "two_digit_hex lower_digits r @ two_digit_hex lower_digits g @ two_digit_hex lower_digits b"
  have "list_all is_hex ?ds" using assms by (simp add: list_all_two_digits)
  then have "set ?ds \<subseteq> hex_chars" by (auto simp: list_all_iff is_hex_iff)
  moreover have "length ?ds = 6" by (simp add: length_two_digit_hex)
  ultimately have "rgbToHex r g b = 35 # ?ds \<and> length ?ds = 6 \<and> set ?ds \<subseteq> hex_chars"
    using assms by (simp add: rgbToHex_digits)
  then show ?thesis by (rule exI)
qed

lemma color_ok_update: "color_ok (st\<lparr>currentColor := c\<rparr>) \<longleftrightarrow> (\<exists>ds. c = 35 # ds \<and> length ds = 6 \<and> set ds \<subseteq> hex_chars)"
  by (simp add: color_ok_def)

lemma accepted_color_ok:
  assumes "accepted st"
  shows "color_ok (validateAndConvertColor st)"
proof (cases "inputType st")
  case Hex
  with assms have m: "matches_hex6 (colorInput st)"
    by (simp add: accepted_iff_valid valid_input_def)
  then obtain ds where ds: "colorInput st = ds \<or> colorInput st = 35 # ds" "length ds = 6" "set ds \<subseteq> hex_chars"
    by (auto simp: matches_hex6_def)
  have nh: "\<not> startsWith_hash ds" using ds(2,3) hash_not_hex by (cases ds) (auto simp: startsWith_hash_def)
  have "(if startsWith_hash (colorInput st) then colorInput st else 35 # colorInput st) = 35 # ds"
    using ds(1) nh by (auto simp: startsWith_hash_def)
  then show ?thesis
    using Hex m ds(2,3) by (simp add: validateAndConvertColor_def validate_body_Hex color_ok_update)
next
  case Rgb
  show ?thesis
  proof (cases "match_triple (colorInput st)")
    case None
    then show ?thesis using assms Rgb by (simp add: accepted_def validate_body_Rgb)
  next
    case (Some m)
    obtain d1 d2 d3 where m: "m = (d1, d2, d3)" by (cases m) auto
    show ?thesis
      using assms Rgb Some m rgbToHex_shape[of "decimal d1" "decimal d2" "decimal d3"]
      by (simp add: accepted_def validate_body_Rgb validateAndConvertColor_def color_ok_update
          split: if_splits)
  qed
next
  case Ycbcr
  show ?thesis
  proof (cases "match_triple (colorInput st)")
    case None
    then show ?thesis using assms Ycbcr by (simp add: accepted_def validate_body_Ycbcr)
  next
    case (Some m)
    obtain d1 d2 d3 where m: "m = (d1, d2, d3)" by (cases m) auto
    let ?c = "ycbcrToRgb (decimal d1) (decimal d2) (decimal d3)"
    have "\<exists>ds. rgbToHex (rgb_r ?c) (rgb_g ?c) (rgb_b ?c) = 35 # ds \<and> length ds = 6 \<and> set ds \<subseteq> hex_chars"
      using ycbcrToRgb_range[of "decimal d1" "decimal d2" "decimal d3"] by (intro rgbToHex_shape) simp_all
    then show ?thesis
      using assms Ycbcr Some m
      by (simp add: accepted_def validate_body_Ycbcr validateAndConvertColor_def color_ok_update
          split: if_splits)
  qed
qed

lemma not_accepted_noop: "\<not> accepted st \<Longrightarrow> validateAndConvertColor st = st"
  unfolding accepted_def validateAndConvertColor_def validate_body_def
  by (auto simp: Let_def split: input_type.splits option.splits if_splits)

lemma validate_frame:
  "colorInput (validateAndConvertColor st) = colorInput st \<and>
   inputType (validateAndConvertColor st) = inputType st"
  unfolding validateAndConvertColor_def validate_body_def
  by (auto simp: Let_def split: input_type.splits option.splits if_splits)

lemma color_ok_step: "color_ok st \<Longrightarrow> color_ok (step st ev)"
proof (cases ev)
  case (Typed s)
  assume "color_ok st" then show ?thesis using Typed by (simp add: color_ok_def)
next
  case Convert
  assume "color_ok st" then show ?thesis
    using Convert accepted_color_ok[of st] not_accepted_noop[of st] by (cases "accepted st") simp_all
next
  case (Select t)
  assume "color_ok st" then show ?thesis using Select by (simp add: color_ok_def select_type_def)
qed

lemma color_ok_foldl: "color_ok st \<Longrightarrow> color_ok (foldl step st evs)"
  by (induction evs arbitrary: st) (simp_all add: color_ok_step)

lemma color_ok_initial: "color_ok initial"
proof -
  have "currentColor initial = 35 # js ''3B82F6'' \<and> length (js ''3B82F6'') = 6 \<and> set (js ''3B82F6'') \<subseteq> hex_chars"
    by (simp add: initial_def js_def hex_chars_def)
  then show ?thesis unfolding color_ok_def by (rule exI)
qed

lemma color_ok_hexToRgb: "color_ok st \<Longrightarrow> hexToRgb (currentColor st) \<noteq> None \<and> colorInfo st \<noteq> None"
proof -
  assume "color_ok st"
  then obtain ds where ds: "currentColor st = 35 # ds" "length ds = 6" "set ds \<subseteq> hex_chars"
    by (auto simp: color_ok_def)
  then have "matches_hex6 (currentColor st)" by (auto simp: matches_hex6_def)
  then have "hexToRgb (currentColor st) \<noteq> None"
    by (simp add: hexToRgb_eq_spec spec_hexToRgb_def Let_def)
  then show ?thesis using ds(1) by (auto simp: colorInfo_def)
qed


lemmas validate_eval =
  accepted_def validate_body_def match_here_def digits_comma_def is_digit_def is_space_def
  parseInt_def digit_value_def js_def hex_test_def hex_exec_def hex_groups_def startsWith_hash_def
  is_hex_class_def Let_def

subsection \<open>Validation\<close>

text \<open>
  Claim C7. Under the formats \<open>Rgb\<close> and \<open>Ycbcr\<close>, the input is accepted if and only if the
  scan finds, anywhere in the string, three integers separated by a comma and white
  space, and each of the integers it parsed lies in the range of the format (0..255; y
  in 16..235 and cb, cr in 16..240). The integers found are those of the leftmost
  occurrence. An accepted input is converted from exactly the parsed integers: no value
  is clamped into its range.
\<close>

theorem validation_by_scan:
  assumes "inputType st = Rgb \<or> inputType st = Ycbcr"
  shows "(accepted st \<longleftrightarrow> valid_input (inputType st) (colorInput st)) \<and>
    (\<forall>d1 d2 d3. accepted st \<and> first_triple (colorInput st) (d1, d2, d3) \<longrightarrow>
       (inputType st = Rgb \<longrightarrow>
          fst (validate_body st) = Some \<lparr>rgb_r = decimal d1, rgb_g = decimal d2, rgb_b = decimal d3\<rparr> \<and>
          currentColor (validateAndConvertColor st) = rgbToHex (decimal d1) (decimal d2) (decimal d3)) \<and>
       (inputType st = Ycbcr \<longrightarrow>
          fst (validate_body st) = Some (ycbcrToRgb (decimal d1) (decimal d2) (decimal d3)) \<and>
          currentColor (validateAndConvertColor st) =
            rgbToHex (rgb_r (ycbcrToRgb (decimal d1) (decimal d2) (decimal d3)))
              (rgb_g (ycbcrToRgb (decimal d1) (decimal d2) (decimal d3)))
              (rgb_b (ycbcrToRgb (decimal d1) (decimal d2) (decimal d3)))))"
proof (intro conjI allI impI)
  show "accepted st \<longleftrightarrow> valid_input (inputType st) (colorInput st)" by (rule accepted_iff_valid)
next
  fix d1 d2 d3
  assume a: "accepted st \<and> first_triple (colorInput st) (d1, d2, d3)" and t: "inputType st = Rgb"
  then have m: "match_triple (colorInput st) = Some (d1, d2, d3)" by (simp add: match_triple_first)
  from a t m show "fst (validate_body st) = Some \<lparr>rgb_r = decimal d1, rgb_g = decimal d2, rgb_b = decimal d3\<rparr>"
    by (simp add: accepted_def validate_body_Rgb split: if_splits)
  from a t m show "currentColor (validateAndConvertColor st) = rgbToHex (decimal d1) (decimal d2) (decimal d3)"
    by (simp add: accepted_def validate_body_Rgb validateAndConvertColor_def split: if_splits)
next
  fix d1 d2 d3
  assume a: "accepted st \<and> first_triple (colorInput st) (d1, d2, d3)" and t: "inputType st = Ycbcr"
  then have m: "match_triple (colorInput st) = Some (d1, d2, d3)" by (simp add: match_triple_first)
  from a t m show "fst (validate_body st) = Some (ycbcrToRgb (decimal d1) (decimal d2) (decimal d3))"
    by (simp add: accepted_def validate_body_Ycbcr split: if_splits)
  from a t m show "currentColor (validateAndConvertColor st) =
            rgbToHex (rgb_r (ycbcrToRgb (decimal d1) (decimal d2) (decimal d3)))
              (rgb_g (ycbcrToRgb (decimal d1) (decimal d2) (decimal d3)))
              (rgb_b (ycbcrToRgb (decimal d1) (decimal d2) (decimal d3)))"
    by (simp add: accepted_def validate_body_Ycbcr validateAndConvertColor_def split: if_splits)
qed

theorem validation_by_scan_witness:
  "valid_input Rgb (js ''rgb(59, 130,  246) !'') \<and>
   \<not> valid_input Rgb (js ''999,999,999'') \<and>
   \<not> valid_input Rgb (js ''999,1,2,3'') \<and>
   \<not> valid_input Rgb (js ''59 130 246'') \<and>
   valid_input Ycbcr (js ''120, 128, 150'') \<and>
   \<not> valid_input Ycbcr (js ''15,128,128'')"
proof -
  let ?st = "\<lambda>t s. \<lparr>colorInput = js s, inputType = t, currentColor = js ''#3B82F6''\<rparr>"
  have "accepted (?st Rgb ''rgb(59, 130,  246) !'')" by (simp add: validate_eval)
  moreover have "\<not> accepted (?st Rgb ''999,999,999'')" by (simp add: validate_eval)
  moreover have "\<not> accepted (?st Rgb ''999,1,2,3'')" by (simp add: validate_eval)
  moreover have "\<not> accepted (?st Rgb ''59 130 246'')" by (simp add: validate_eval)
  moreover have "accepted (?st Ycbcr ''120, 128, 150'')" by (simp add: validate_eval)
  moreover have "\<not> accepted (?st Ycbcr ''15,128,128'')" by (simp add: validate_eval)
  ultimately show ?thesis
    using validation_by_scan[of "?st Rgb ''rgb(59, 130,  246) !''"]
      validation_by_scan[of "?st Rgb ''999,999,999''"]
      validation_by_scan[of "?st Rgb ''999,1,2,3''"]
      validation_by_scan[of "?st Rgb ''59 130 246''"]
      validation_by_scan[of "?st Ycbcr ''120, 128, 150''"]
      validation_by_scan[of "?st Ycbcr ''15,128,128''"]
    by simp
qed

text \<open>
  Claim C8. Under every format, an input that validation does not accept leaves the
  state as it was: the current colour, and with it the displayed values, is unchanged,
  and nothing else is updated.
\<close>

theorem rejection_is_noop:
  assumes "\<not> valid_input (inputType st) (colorInput st)"
  shows "\<not> accepted st \<and> validateAndConvertColor st = st \<and>
         colorInfo (validateAndConvertColor st) = colorInfo st"
  using assms not_accepted_noop[of st] by (simp add: accepted_iff_valid)

theorem rejection_is_noop_witness:
  "validateAndConvertColor \<lparr>colorInput = js ''3B82F'', inputType = Hex, currentColor = js ''#3B82F6''\<rparr> =
     \<lparr>colorInput = js ''3B82F'', inputType = Hex, currentColor = js ''#3B82F6''\<rparr> \<and>
   validateAndConvertColor \<lparr>colorInput = js ''999,999,999'', inputType = Rgb, currentColor = js ''#3B82F6''\<rparr> =
     \<lparr>colorInput = js ''999,999,999'', inputType = Rgb, currentColor = js ''#3B82F6''\<rparr> \<and>
   validateAndConvertColor \<lparr>colorInput = js ''15,128,128'', inputType = Ycbcr, currentColor = js ''#3B82F6''\<rparr> =
     \<lparr>colorInput = js ''15,128,128'', inputType = Ycbcr, currentColor = js ''#3B82F6''\<rparr>"
proof -
  let ?st = "\<lambda>t s. \<lparr>colorInput = js s, inputType = t, currentColor = js ''#3B82F6''\<rparr>"
  have "\<not> accepted (?st Hex ''3B82F'')" by (simp add: validate_eval)
  then have a: "\<not> valid_input (inputType (?st Hex ''3B82F'')) (colorInput (?st Hex ''3B82F''))"
    by (simp add: accepted_iff_valid)
  have "\<not> accepted (?st Rgb ''999,999,999'')" by (simp add: validate_eval)
  then have b: "\<not> valid_input (inputType (?st Rgb ''999,999,999'')) (colorInput (?st Rgb ''999,999,999''))"
    by (simp add: accepted_iff_valid)
  have "\<not> accepted (?st Ycbcr ''15,128,128'')" by (simp add: validate_eval)
  then have c: "\<not> valid_input (inputType (?st Ycbcr ''15,128,128'')) (colorInput (?st Ycbcr ''15,128,128''))"
    by (simp add: accepted_iff_valid)
  show ?thesis
    using rejection_is_noop[OF a] rejection_is_noop[OF b] rejection_is_noop[OF c] by simp
qed

subsection \<open>The current colour in reachable states\<close>

text \<open>
  Claim C10. In every state reached from the initial one by typing, converting and
  switching the format, the current colour is \<^verbatim>\<open>#\<close> followed by six hex digits, so
  \<open>hexToRgb\<close> accepts it and \<open>colorInfo\<close> is never null; every accepted input writes such
  a string (the validated hex string, or a result of \<open>rgbToHex\<close> on bytes).
\<close>

theorem current_color_always_hex:
  "color_ok (run evs) \<and> hexToRgb (currentColor (run evs)) \<noteq> None \<and> colorInfo (run evs) \<noteq> None \<and>
   (\<forall>st. accepted st \<longrightarrow> color_ok (validateAndConvertColor st))"
  using color_ok_foldl[OF color_ok_initial, of evs] color_ok_hexToRgb[of "run evs"]
  by (simp add: run_def accepted_color_ok)

theorem current_color_always_hex_witness:
  "currentColor (run [Select Ycbcr, Typed (js ''120, 128, 150''), Convert, Typed (js ''1,2''), Convert]) = js ''#9c6779'' \<and>
   colorInfo (run [Select Ycbcr, Typed (js ''120, 128, 150''), Convert, Typed (js ''1,2''), Convert]) \<noteq> None \<and>
   color_ok (validateAndConvertColor \<lparr>colorInput = js ''3b82f6'', inputType = Hex, currentColor = []\<rparr>)"
proof -
  have y: "ycbcrToRgb 120 128 150 = \<lparr>rgb_r = 156, rgb_g = 103, rgb_b = 121\<rparr>"
    by (simp add: ycbcrToRgb_def number_eval)
  have h: "rgbToHex 156 103 121 = js ''#9c6779''"
    by (simp add: js_def rgbToHex_def toString16_def shl_def toInt32_def hex_digits.simps hex_digit_def)
  have "currentColor (run [Select Ycbcr, Typed (js ''120, 128, 150''), Convert, Typed (js ''1,2''), Convert]) = js ''#9c6779''"
    apply (simp add: run_def initial_def select_type_def validateAndConvertColor_def)
    apply (simp add: validate_eval)
    apply (simp add: y h js_def)
    done
  moreover have "accepted \<lparr>colorInput = js ''3b82f6'', inputType = Hex, currentColor = []\<rparr>"
    by (simp add: validate_eval hexToRgb_def is_hex_def)
  ultimately show ?thesis
    using current_color_always_hex[of "[Select Ycbcr, Typed (js ''120, 128, 150''), Convert, Typed (js ''1,2''), Convert]"]
    by simp
qed

subsection \<open>The rounding error of the arithmetic\<close>

text \<open>
  \<open>fl\<close> moves a value of magnitude at most \<open>B\<close> by at most \<open>B / 2 ^ 53\<close>: the binary
  exponent it finds is not above the value, and rounding the scaled significand moves it
  by at most one half.
\<close>

lemma ilog2_bounds: "0 < n \<Longrightarrow> 2 ^ ilog2 n \<le> n \<and> n < 2 ^ Suc (ilog2 n)"
proof (induction n rule: ilog2.induct)
  case (1 n)
  show ?case
  proof (cases "n < 2")
    case True
    with "1.prems" have "n = 1" by simp
    then show ?thesis by (simp add: ilog2_small)
  next
    case False
    then have "0 < n div 2" by simp
    with 1 False have ih: "2 ^ ilog2 (n div 2) \<le> n div 2" "n div 2 < 2 ^ Suc (ilog2 (n div 2))"
      by simp_all
    have "ilog2 n = Suc (ilog2 (n div 2))" using False by (simp add: ilog2_step)
    moreover have "2 * 2 ^ ilog2 (n div 2) \<le> n" using ih(1) by simp
    moreover have "n < 2 * 2 ^ Suc (ilog2 (n div 2))" using ih(2) by simp
    ultimately show ?thesis by simp
  qed
qed

lemma pow2_pos: "0 < pow2 k"
  by (simp add: pow2_def)

lemma pow2_nat: "pow2 (int n) = 2 ^ n"
  by (simp add: pow2_def)

lemma pow2_neg_nat: "pow2 (- int n) = 1 / 2 ^ n"
proof (cases "n = 0")
  case True
  then show ?thesis by (simp add: pow2_def)
next
  case False
  then have "\<not> 0 \<le> - int n" by simp
  then show ?thesis by (simp only: pow2_def if_False minus_minus nat_int)
qed

lemma pow2_add: "pow2 (a + b) = pow2 a * pow2 b"
proof -
  have "pow2 k = 2 powi k" for k
    by (simp add: pow2_def power_int_def field_simps)
  then show ?thesis by (simp add: power_int_add)
qed

lemma pow2_diff_52: "pow2 (k - 52) = pow2 k / 2 ^ 52"
proof -
  have "pow2 (k - 52) * pow2 52 = pow2 k" using pow2_add[of "k - 52" 52] by simp
  moreover have "pow2 52 = 2 ^ 52" using pow2_nat[of 52] by simp
  ultimately show ?thesis by (simp add: field_simps)
qed

lemma pow2_mono: "a \<le> b \<Longrightarrow> pow2 a \<le> pow2 b"
proof -
  assume "a \<le> b"
  then obtain n where "b = a + int n" by (metis zle_iff_zadd)
  then have "pow2 b = pow2 a * 2 ^ n" by (simp add: pow2_add pow2_nat)
  moreover have "(1::rat) \<le> 2 ^ n" by simp
  ultimately show ?thesis using pow2_pos[of a] by (simp add: mult_le_cancel_left1)
qed

lemma exponent_le: 
  assumes "x \<noteq> 0"
  shows "pow2 (exponent x) \<le> \<bar>x\<bar>"
proof (cases "1 \<le> \<bar>x\<bar>")
  case True
  define n where "n = nat \<lfloor>\<bar>x\<bar>\<rfloor>"
  have "1 \<le> \<lfloor>\<bar>x\<bar>\<rfloor>" using True by (simp add: le_floor_iff)
  then have n: "0 < n" "of_nat n \<le> \<bar>x\<bar>"
    unfolding n_def by (simp_all add: of_nat_nat)
  have "(2::nat) ^ ilog2 n \<le> n" using ilog2_bounds[OF n(1)] by simp
  then have "(of_nat (2 ^ ilog2 n) :: rat) \<le> of_nat n" by (simp only: of_nat_le_iff)
  moreover have "(of_nat (2 ^ ilog2 n) :: rat) = 2 ^ ilog2 n" by simp
  ultimately have "(2::rat) ^ ilog2 n \<le> of_nat n" by (simp only:)
  then have "(2::rat) ^ ilog2 n \<le> \<bar>x\<bar>" using n(2) by (rule order_trans)
  then show ?thesis using True by (simp add: exponent_def n_def[symmetric] pow2_nat)
next
  case False
  define c where "c = \<lceil>1 / \<bar>x\<bar>\<rceil>"
  define m where "m = nat (c - 1)"
  have x: "0 < \<bar>x\<bar>" "\<bar>x\<bar> < 1" using assms False by simp_all
  then have "1 < 1 / \<bar>x\<bar>" by (simp add: field_simps)
  then have "1 < c" unfolding c_def by (simp add: less_ceiling_iff)
  then have m: "0 < m" "int m = c - 1" unfolding m_def by simp_all
  have "m < 2 ^ Suc (ilog2 m)" using ilog2_bounds[OF m(1)] by simp
  then have "Suc m \<le> 2 ^ Suc (ilog2 m)" by simp
  then have "(of_nat (Suc m) :: rat) \<le> of_nat (2 ^ Suc (ilog2 m))" by (simp only: of_nat_le_iff)
  moreover have "(of_nat (2 ^ Suc (ilog2 m)) :: rat) = 2 ^ Suc (ilog2 m)" by simp
  ultimately have "(of_nat (Suc m) :: rat) \<le> 2 ^ Suc (ilog2 m)" by (simp only:)
  moreover have "(of_nat (Suc m) :: rat) = of_int c"
  proof -
    have "int (Suc m) = c" using m(2) by simp
    then have "(of_int (int (Suc m)) :: rat) = of_int c" by (simp only:)
    then show ?thesis by (simp only: of_int_of_nat_eq)
  qed
  moreover have "1 / \<bar>x\<bar> \<le> of_int c" unfolding c_def by (rule le_of_int_ceiling)
  ultimately have "1 / \<bar>x\<bar> \<le> 2 ^ Suc (ilog2 m)" by linarith
  then have "1 / 2 ^ Suc (ilog2 m) \<le> \<bar>x\<bar>" using x(1) by (simp add: field_simps)
  moreover have "exponent x = - int (Suc (ilog2 m))"
    using False by (simp add: exponent_def c_def[symmetric] m_def[symmetric])
  ultimately show ?thesis by (simp only: pow2_neg_nat)
qed

lemma round_half_even_error: "\<bar>of_int (round_half_even m) - m\<bar> \<le> 1 / 2"
proof -
  have "of_int \<lfloor>m\<rfloor> \<le> m" "m < of_int \<lfloor>m\<rfloor> + 1" by linarith+
  then show ?thesis
    by (auto simp: round_half_even_def Let_def)
qed

lemma fl_error:
  assumes "\<bar>x\<bar> \<le> B" "pow2 (- 1022) \<le> B"
  shows "\<bar>fl x - x\<bar> \<le> B / 2 ^ 53"
proof (cases "x = 0")
  case True
  then show ?thesis using assms(1) by (simp add: fl_def)
next
  case False
  define q where "q = pow2 (max (exponent x) (- 1022) - 52)"
  have qpos: "0 < q" by (simp add: q_def pow2_pos)
  have "pow2 (max (exponent x) (- 1022)) \<le> B"
    using exponent_le[OF False] assms by (simp add: max_def)
  then have q: "q \<le> B / 2 ^ 52" by (simp add: q_def pow2_diff_52 divide_right_mono)
  have "fl x - x = (of_int (round_half_even (x / q)) - x / q) * q"
    using False qpos by (simp add: fl_def q_def[symmetric] Let_def field_simps)
  then have "\<bar>fl x - x\<bar> = \<bar>of_int (round_half_even (x / q)) - x / q\<bar> * q"
    using qpos by (simp add: abs_mult)
  also have "\<dots> \<le> 1 / 2 * q"
    using round_half_even_error[of "x / q"] qpos by (intro mult_right_mono) simp_all
  also have "\<dots> \<le> B / 2 ^ 53" using q by simp
  finally show ?thesis .
qed

lemma pow2_small: "pow2 (- 1022) \<le> 1"
proof -
  have "pow2 (- 1022) \<le> pow2 0" by (rule pow2_mono) simp
  then show ?thesis by (simp add: pow2_def)
qed

lemma eps_pos: "0 < eps" by (simp add: eps_def)

lemma fl_error_1024: "\<bar>x\<bar> \<le> 1024 \<Longrightarrow> \<bar>fl x - x\<bar> \<le> eps"
  using fl_error[of x 1024] pow2_small by (simp add: eps_def)

lemma lit_error: "\<bar>q\<bar> \<le> 4 \<Longrightarrow> \<bar>lit q - q\<bar> \<le> eps / 256"
  using fl_error[of q 4] pow2_small by (simp add: lit_def eps_def)

lemma fmul_lit_close:
  assumes q: "\<bar>q\<bar> \<le> 3" and R: "\<bar>R - T\<bar> \<le> d" and d: "d \<le> 1" and T: "\<bar>T\<bar> \<le> 255"
  shows "\<bar>fmul (lit q) R - q * T\<bar> \<le> 3 * d + 2 * eps"
proof -
  have R': "\<bar>R\<bar> \<le> 256" using R d T by linarith
  have q4: "\<bar>q\<bar> \<le> 4" using q by simp
  have "lit q * R - q * T = (lit q - q) * R + q * (R - T)" by (simp add: algebra_simps)
  then have "\<bar>lit q * R - q * T\<bar> \<le> \<bar>(lit q - q) * R\<bar> + \<bar>q * (R - T)\<bar>"
    by (simp only: abs_triangle_ineq)
  also have "\<dots> = \<bar>lit q - q\<bar> * \<bar>R\<bar> + \<bar>q\<bar> * \<bar>R - T\<bar>" by (simp only: abs_mult)
  also have "\<dots> \<le> eps / 256 * 256 + 3 * d"
    using lit_error[OF q4] R' q R eps_pos by (intro add_mono mult_mono) simp_all
  finally have e: "\<bar>lit q * R - q * T\<bar> \<le> eps + 3 * d" by simp
  have "\<bar>q * T\<bar> \<le> 3 * 255" unfolding abs_mult using q T by (intro mult_mono) simp_all
  moreover have "eps \<le> 1" by (simp add: eps_def)
  ultimately have "\<bar>lit q * R\<bar> \<le> 1024" using e d by linarith
  then have "\<bar>fl (lit q * R) - lit q * R\<bar> \<le> eps" by (rule fl_error_1024)
  then show ?thesis using e unfolding fmul_def by linarith
qed

lemma fadd_close:
  assumes "\<bar>a - A\<bar> \<le> da" "\<bar>b - C\<bar> \<le> db" "\<bar>A + C\<bar> \<le> 1000" "da + db \<le> 1"
  shows "\<bar>fadd a b - (A + C)\<bar> \<le> da + db + eps"
proof -
  have "\<bar>a + b\<bar> \<le> 1024" using assms by linarith
  then have "\<bar>fl (a + b) - (a + b)\<bar> \<le> eps" by (rule fl_error_1024)
  then show ?thesis using assms unfolding fadd_def by linarith
qed

lemma fsub_close:
  assumes "\<bar>a - A\<bar> \<le> da" "\<bar>b - C\<bar> \<le> db" "\<bar>A - C\<bar> \<le> 1000" "da + db \<le> 1"
  shows "\<bar>fsub a b - (A - C)\<bar> \<le> da + db + eps"
proof -
  have "\<bar>a - b\<bar> \<le> 1024" using assms by linarith
  then have "\<bar>fl (a - b) - (a - b)\<bar> \<le> eps" by (rule fl_error_1024)
  then show ?thesis using assms unfolding fsub_def by linarith
qed

lemma Math_round_of_int: "Math_round (of_int n) = n"
  unfolding Math_round_def by (rule floor_unique) simp_all

lemma Math_round_clamp:
  assumes "lo \<le> hi"
  shows "Math_round (Math_max (of_int lo) (Math_min (of_int hi) x)) =
         Math_max lo (Math_min hi (Math_round x))"
proof -
  consider "x < of_int lo" | "of_int lo \<le> x" "x \<le> of_int hi" | "of_int hi < x" by linarith
  then show ?thesis
  proof cases
    case 1
    then have "x + 1 / 2 < of_int (lo + 1)" by simp
    then have "\<lfloor>x + 1 / 2\<rfloor> < lo + 1" by (simp only: floor_less_iff)
    then have "Math_round x \<le> lo" by (simp add: Math_round_def)
    then show ?thesis using 1 assms
      by (simp add: Math_max_def Math_min_def Math_round_of_int)
  next
    case 2
    then have "of_int lo \<le> x + 1 / 2" "x + 1 / 2 < of_int (hi + 1)" by simp_all
    then have "lo \<le> \<lfloor>x + 1 / 2\<rfloor>" "\<lfloor>x + 1 / 2\<rfloor> < hi + 1" by (simp_all only: le_floor_iff floor_less_iff)
    then have "lo \<le> Math_round x" "Math_round x \<le> hi" by (simp_all add: Math_round_def)
    then show ?thesis using 2 by (auto simp: Math_max_def Math_min_def Math_round_of_int)
  next
    case 3
    then have "of_int hi \<le> x + 1 / 2" by simp
    then have "hi \<le> \<lfloor>x + 1 / 2\<rfloor>" by (simp only: le_floor_iff)
    then have "hi \<le> Math_round x" by (simp add: Math_round_def)
    then show ?thesis using 3 assms
      by (simp add: Math_max_def Math_min_def Math_round_of_int)
  qed
qed

subsection \<open>Nearest integers\<close>

text \<open>
  The exact value of each formula is a multiple of one millionth. A computed value
  within less than a millionth of it therefore rounds to an integer that is nearest to
  the exact value: the same integer, unless the exact value is a tie.
\<close>

lemma nearest_of_close:
  assumes "\<bar>xd - of_int K / 1000000\<bar> \<le> e" "e < 1 / 1000000"
  shows "nearest (Math_round xd) (of_int K / 1000000)"
proof -
  define n where "n = Math_round xd"
  have a: "of_int n \<le> xd + 1 / 2" "xd + 1 / 2 < of_int n + 1"
    unfolding n_def Math_round_def by linarith+
  have "1000000 * of_int n - 500001 < (of_int K :: rat)" using a assms by linarith
  then have "(of_int (1000000 * n - 500001) :: rat) < of_int K" by simp
  then have "1000000 * n - 500001 < K" by (simp only: of_int_less_iff)
  then have "1000000 * n - 500000 \<le> K" by simp
  then have "(of_int (1000000 * n - 500000) :: rat) \<le> of_int K" by (simp only: of_int_le_iff)
  then have lower: "of_int n - 1 / 2 \<le> (of_int K :: rat) / 1000000" by simp
  have "(of_int K :: rat) < 1000000 * of_int n + 500001" using a assms by linarith
  then have "(of_int K :: rat) < of_int (1000000 * n + 500001)" by simp
  then have "K < 1000000 * n + 500001" by (simp only: of_int_less_iff)
  then have "K \<le> 1000000 * n + 500000" by simp
  then have "(of_int K :: rat) \<le> of_int (1000000 * n + 500000)" by (simp only: of_int_le_iff)
  then have upper: "(of_int K :: rat) / 1000000 \<le> of_int n + 1 / 2" by simp
  show ?thesis unfolding nearest_def n_def[symmetric] using lower upper by linarith
qed

lemma nearest_unique:
  assumes "nearest n x" "\<not> tie x"
  shows "n = round_half_up x"
proof -
  have le: "of_int n \<le> x + 1 / 2" "x - of_int n \<le> 1 / 2"
    using assms(1) unfolding nearest_def by linarith+
  have "x - of_int n \<noteq> 1 / 2"
  proof
    assume h: "x - of_int n = 1 / 2"
    then have "x = of_int n + 1 / 2" by simp
    then have "\<lfloor>x\<rfloor> = n" by (simp add: floor_unique)
    then show False using h assms(2) by (simp add: tie_def)
  qed
  then have "x + 1 / 2 < of_int n + 1" using le(2) by linarith
  then have "\<lfloor>x + 1 / 2\<rfloor> = n" using le(1) by (intro floor_unique) simp_all
  then show ?thesis by (simp add: round_half_up_def)
qed

lemma eps_small: "eps \<le> 1 / 100" "17 * eps < 1 / 1000000"
  by (simp_all add: eps_def)

lemma Math_clamp: "Math_max lo (Math_min hi n) = clamp lo hi n"
  by (simp add: Math_max_def Math_min_def clamp_def max_def min_def)

lemma y_exact_frac: "y_exact r g b = of_int (299000 * r + 587000 * g + 114000 * b) / 1000000"
  by (simp add: y_exact_def)

lemma cb_exact_frac:
  "cb_exact r g b = of_int (128000000 - 168736 * r - 331264 * g + 500000 * b) / 1000000"
  by (simp add: cb_exact_def)

lemma cr_exact_frac:
  "cr_exact r g b = of_int (128000000 + 500000 * r - 418688 * g - 81312 * b) / 1000000"
  by (simp add: cr_exact_def)

lemma fmul_lit_exact:
  assumes "\<bar>q\<bar> \<le> 3" "\<bar>T\<bar> \<le> 255"
  shows "\<bar>fmul (lit q) T - q * T\<bar> \<le> 2 * eps"
  using fmul_lit_close[of q T T 0] assms by simp

lemma y_close:
  assumes "0 \<le> r" "r \<le> 255" "0 \<le> g" "g \<le> 255" "0 \<le> b" "b \<le> 255"
  shows "\<bar>fadd (fadd (fmul (lit (299 / 1000)) (of_int r)) (fmul (lit (587 / 1000)) (of_int g)))
                   (fmul (lit (114 / 1000)) (of_int b)) - y_exact r g b\<bar> \<le> 8 * eps"
proof -
  define R G B :: rat where "R = of_int r" and "G = of_int g" and "B = of_int b"
  have bnd: "0 \<le> R" "R \<le> 255" "0 \<le> G" "G \<le> 255" "0 \<le> B" "B \<le> 255"
    using assms by (simp_all add: R_def G_def B_def)
  note e = eps_small(1) eps_pos
  have p1: "\<bar>fmul (lit (299 / 1000)) R - 299 / 1000 * R\<bar> \<le> 2 * eps"
    using bnd by (intro fmul_lit_exact) simp_all
  have p2: "\<bar>fmul (lit (587 / 1000)) G - 587 / 1000 * G\<bar> \<le> 2 * eps"
    using bnd by (intro fmul_lit_exact) simp_all
  have p3: "\<bar>fmul (lit (114 / 1000)) B - 114 / 1000 * B\<bar> \<le> 2 * eps"
    using bnd by (intro fmul_lit_exact) simp_all
  have s1: "\<bar>fadd (fmul (lit (299 / 1000)) R) (fmul (lit (587 / 1000)) G)
      - (299 / 1000 * R + 587 / 1000 * G)\<bar> \<le> 2 * eps + 2 * eps + eps"
    by (rule fadd_close[OF p1 p2]) (use bnd e in linarith)+
  have s2: "\<bar>fadd (fadd (fmul (lit (299 / 1000)) R) (fmul (lit (587 / 1000)) G)) (fmul (lit (114 / 1000)) B)
      - ((299 / 1000 * R + 587 / 1000 * G) + 114 / 1000 * B)\<bar>
      \<le> (2 * eps + 2 * eps + eps) + 2 * eps + eps"
    by (rule fadd_close[OF s1 p3]) (use bnd e in linarith)+
  then show ?thesis unfolding y_exact_def R_def G_def B_def by linarith
qed

lemma cb_close:
  assumes "0 \<le> r" "r \<le> 255" "0 \<le> g" "g \<le> 255" "0 \<le> b" "b \<le> 255"
  shows "\<bar>fadd (fsub (fsub 128 (fmul (lit (168736 / 1000000)) (of_int r)))
                          (fmul (lit (331264 / 1000000)) (of_int g)))
                    (fmul (lit (5 / 10)) (of_int b)) - cb_exact r g b\<bar> \<le> 9 * eps"
proof -
  define R G B :: rat where "R = of_int r" and "G = of_int g" and "B = of_int b"
  have bnd: "0 \<le> R" "R \<le> 255" "0 \<le> G" "G \<le> 255" "0 \<le> B" "B \<le> 255"
    using assms by (simp_all add: R_def G_def B_def)
  note e = eps_small(1) eps_pos
  have c: "\<bar>128 - (128::rat)\<bar> \<le> 0" by simp
  have p1: "\<bar>fmul (lit (168736 / 1000000)) R - 168736 / 1000000 * R\<bar> \<le> 2 * eps"
    using bnd by (intro fmul_lit_exact) simp_all
  have p2: "\<bar>fmul (lit (331264 / 1000000)) G - 331264 / 1000000 * G\<bar> \<le> 2 * eps"
    using bnd by (intro fmul_lit_exact) simp_all
  have p3: "\<bar>fmul (lit (5 / 10)) B - 5 / 10 * B\<bar> \<le> 2 * eps"
    using bnd by (intro fmul_lit_exact) simp_all
  have s1: "\<bar>fsub 128 (fmul (lit (168736 / 1000000)) R) - (128 - 168736 / 1000000 * R)\<bar>
      \<le> 0 + 2 * eps + eps"
    by (rule fsub_close[OF c p1]) (use bnd e in linarith)+
  have s2: "\<bar>fsub (fsub 128 (fmul (lit (168736 / 1000000)) R)) (fmul (lit (331264 / 1000000)) G)
      - ((128 - 168736 / 1000000 * R) - 331264 / 1000000 * G)\<bar> \<le> (0 + 2 * eps + eps) + 2 * eps + eps"
    by (rule fsub_close[OF s1 p2]) (use bnd e in linarith)+
  have s3: "\<bar>fadd (fsub (fsub 128 (fmul (lit (168736 / 1000000)) R)) (fmul (lit (331264 / 1000000)) G))
        (fmul (lit (5 / 10)) B)
      - (((128 - 168736 / 1000000 * R) - 331264 / 1000000 * G) + 5 / 10 * B)\<bar>
      \<le> ((0 + 2 * eps + eps) + 2 * eps + eps) + 2 * eps + eps"
    by (rule fadd_close[OF s2 p3]) (use bnd e in linarith)+
  then show ?thesis unfolding cb_exact_def R_def G_def B_def by linarith
qed

lemma cr_close:
  assumes "0 \<le> r" "r \<le> 255" "0 \<le> g" "g \<le> 255" "0 \<le> b" "b \<le> 255"
  shows "\<bar>fsub (fsub (fadd 128 (fmul (lit (5 / 10)) (of_int r)))
                          (fmul (lit (418688 / 1000000)) (of_int g)))
                    (fmul (lit (81312 / 1000000)) (of_int b)) - cr_exact r g b\<bar> \<le> 9 * eps"
proof -
  define R G B :: rat where "R = of_int r" and "G = of_int g" and "B = of_int b"
  have bnd: "0 \<le> R" "R \<le> 255" "0 \<le> G" "G \<le> 255" "0 \<le> B" "B \<le> 255"
    using assms by (simp_all add: R_def G_def B_def)
  note e = eps_small(1) eps_pos
  have c: "\<bar>128 - (128::rat)\<bar> \<le> 0" by simp
  have p1: "\<bar>fmul (lit (5 / 10)) R - 5 / 10 * R\<bar> \<le> 2 * eps"
    using bnd by (intro fmul_lit_exact) simp_all
  have p2: "\<bar>fmul (lit (418688 / 1000000)) G - 418688 / 1000000 * G\<bar> \<le> 2 * eps"
    using bnd by (intro fmul_lit_exact) simp_all
  have p3: "\<bar>fmul (lit (81312 / 1000000)) B - 81312 / 1000000 * B\<bar> \<le> 2 * eps"
    using bnd by (intro fmul_lit_exact) simp_all
  have s1: "\<bar>fadd 128 (fmul (lit (5 / 10)) R) - (128 + 5 / 10 * R)\<bar> \<le> 0 + 2 * eps + eps"
    by (rule fadd_close[OF c p1]) (use bnd e in linarith)+
  have s2: "\<bar>fsub (fadd 128 (fmul (lit (5 / 10)) R)) (fmul (lit (418688 / 1000000)) G)
      - ((128 + 5 / 10 * R) - 418688 / 1000000 * G)\<bar> \<le> (0 + 2 * eps + eps) + 2 * eps + eps"
    by (rule fsub_close[OF s1 p2]) (use bnd e in linarith)+
  have s3: "\<bar>fsub (fsub (fadd 128 (fmul (lit (5 / 10)) R)) (fmul (lit (418688 / 1000000)) G))
        (fmul (lit (81312 / 1000000)) B)
      - (((128 + 5 / 10 * R) - 418688 / 1000000 * G) - 81312 / 1000000 * B)\<bar>
      \<le> ((0 + 2 * eps + eps) + 2 * eps + eps) + 2 * eps + eps"
    by (rule fsub_close[OF s2 p3]) (use bnd e in linarith)+
  then show ?thesis unfolding cr_exact_def R_def G_def B_def by linarith
qed

lemmas exact_eval = y_exact_def cb_exact_def cr_exact_def r_exact_def g_exact_def b_exact_def
  tie_def round_half_up_def clamp_def floor_rat_numeral floor_rat_neg_numeral spec_rgbToYcbcr_def
  spec_ycbcrToRgb_def

lemma nearest_y:
  assumes "0 \<le> r" "r \<le> 255" "0 \<le> g" "g \<le> 255" "0 \<le> b" "b \<le> 255"
  shows "nearest (Math_round (fadd (fadd (fmul (lit (299 / 1000)) (of_int r)) (fmul (lit (587 / 1000)) (of_int g)))
                   (fmul (lit (114 / 1000)) (of_int b)))) (y_exact r g b)"
  unfolding y_exact_frac
  by (rule nearest_of_close[where e = "8 * eps"])
     (use y_close[OF assms] eps_small(2) eps_pos in \<open>simp_all add: y_exact_frac\<close>)

lemma nearest_cb:
  assumes "0 \<le> r" "r \<le> 255" "0 \<le> g" "g \<le> 255" "0 \<le> b" "b \<le> 255"
  shows "nearest (Math_round (fadd (fsub (fsub 128 (fmul (lit (168736 / 1000000)) (of_int r)))
                          (fmul (lit (331264 / 1000000)) (of_int g)))
                    (fmul (lit (5 / 10)) (of_int b)))) (cb_exact r g b)"
  unfolding cb_exact_frac
  by (rule nearest_of_close[where e = "9 * eps"])
     (use cb_close[OF assms] eps_small(2) eps_pos in \<open>simp_all add: cb_exact_frac\<close>)

lemma nearest_cr:
  assumes "0 \<le> r" "r \<le> 255" "0 \<le> g" "g \<le> 255" "0 \<le> b" "b \<le> 255"
  shows "nearest (Math_round (fsub (fsub (fadd 128 (fmul (lit (5 / 10)) (of_int r)))
                          (fmul (lit (418688 / 1000000)) (of_int g)))
                    (fmul (lit (81312 / 1000000)) (of_int b)))) (cr_exact r g b)"
  unfolding cr_exact_frac
  by (rule nearest_of_close[where e = "9 * eps"])
     (use cr_close[OF assms] eps_small(2) eps_pos in \<open>simp_all add: cr_exact_frac\<close>)

lemma rgbToYcbcr_round_then_clamp:
  "rgbToYcbcr r g b =
     \<lparr>ycbcr_y = clamp 16 235 (Math_round (fadd (fadd (fmul (lit (299 / 1000)) (of_int r)) (fmul (lit (587 / 1000)) (of_int g)))
                   (fmul (lit (114 / 1000)) (of_int b)))),
      ycbcr_cb = clamp 16 240 (Math_round (fadd (fsub (fsub 128 (fmul (lit (168736 / 1000000)) (of_int r)))
                          (fmul (lit (331264 / 1000000)) (of_int g)))
                    (fmul (lit (5 / 10)) (of_int b)))),
      ycbcr_cr = clamp 16 240 (Math_round (fsub (fsub (fadd 128 (fmul (lit (5 / 10)) (of_int r)))
                          (fmul (lit (418688 / 1000000)) (of_int g)))
                    (fmul (lit (81312 / 1000000)) (of_int b))))\<rparr>"
  using Math_round_clamp[of 16 235] Math_round_clamp[of 16 240]
  by (simp add: rgbToYcbcr_def Let_def Math_clamp)


text \<open>
  Claim C1, as stated: for r, g and b in 0..255, \<open>rgbToYcbcr r g b\<close> is the result of
  computing the three formulas, rounding each to the nearest integer with ties going
  up, and then clamping. It fails at (0, 36, 12): there y is exactly 22.5, which rounds
  up to 23, but the sum of the binary64 products 0.587 * 36 and 0.114 * 12 is
  22.499999999999996, and the program returns 22.
\<close>

lemma binary64_trace_0_36_12:
  "lit (587 / 1000) = 2643612981266481 / 2 ^ 52 \<and> lit (114 / 1000) = 8214565720323785 / 2 ^ 56 \<and>
   fmul (lit (299 / 1000)) 0 = 0 \<and>
   fmul (lit (587 / 1000)) 36 = 2974064603924791 / 2 ^ 47 \<and>
   fmul (lit (114 / 1000)) 12 = 6160924290242839 / 2 ^ 52 \<and>
   fadd (fadd (fmul (lit (299 / 1000)) 0) (fmul (lit (587 / 1000)) 36)) (fmul (lit (114 / 1000)) 12) =
     6333186975989759 / 2 ^ 48 \<and>
   (6333186975989759 / 2 ^ 48 :: rat) < 45 / 2"
  by (simp add: number_eval)

theorem rgbToYcbcr_half_up_counterexample:
  "y_exact 0 36 12 = 45 / 2 \<and> ycbcr_y (spec_rgbToYcbcr 0 36 12) = 23 \<and>
   ycbcr_y (rgbToYcbcr 0 36 12) = 22 \<and> rgbToYcbcr 0 36 12 \<noteq> spec_rgbToYcbcr 0 36 12"
proof -
  have a: "y_exact 0 36 12 = 45 / 2" "ycbcr_y (spec_rgbToYcbcr 0 36 12) = 23"
    by (simp_all add: exact_eval)
  have b: "ycbcr_y (rgbToYcbcr 0 36 12) = 22"
    by (simp add: rgbToYcbcr_def number_eval)
  from a b have "ycbcr_y (rgbToYcbcr 0 36 12) \<noteq> ycbcr_y (spec_rgbToYcbcr 0 36 12)" by simp
  then have "rgbToYcbcr 0 36 12 \<noteq> spec_rgbToYcbcr 0 36 12" by auto
  with a b show ?thesis by simp
qed

text \<open>
  Claim C1, amended. For r, g and b in 0..255, \<open>rgbToYcbcr r g b\<close> is the result of
  computing the three formulas, rounding each to a nearest integer, and then clamping y
  to 16..235 and cb, cr to 16..240. The formulas are evaluated in binary64 arithmetic, so
  where the exact value of a formula is a tie the integer may be either neighbour;
  everywhere else it is the rounding with ties going up, and the program agrees with the
  specification's function.
\<close>

theorem rgbToYcbcr_nearest:
  assumes "0 \<le> r" "r \<le> 255" "0 \<le> g" "g \<le> 255" "0 \<le> b" "b \<le> 255"
  shows "(\<exists>ny ncb ncr.
            nearest ny (y_exact r g b) \<and> nearest ncb (cb_exact r g b) \<and> nearest ncr (cr_exact r g b) \<and>
            rgbToYcbcr r g b =
              \<lparr>ycbcr_y = clamp 16 235 ny, ycbcr_cb = clamp 16 240 ncb, ycbcr_cr = clamp 16 240 ncr\<rparr>) \<and>
         (\<not> tie (y_exact r g b) \<and> \<not> tie (cb_exact r g b) \<and> \<not> tie (cr_exact r g b) \<longrightarrow>
            rgbToYcbcr r g b = spec_rgbToYcbcr r g b)"
proof -
  let ?ny = "Math_round (fadd (fadd (fmul (lit (299 / 1000)) (of_int r)) (fmul (lit (587 / 1000)) (of_int g)))
                   (fmul (lit (114 / 1000)) (of_int b)))"
  let ?ncb = "Math_round (fadd (fsub (fsub 128 (fmul (lit (168736 / 1000000)) (of_int r)))
                          (fmul (lit (331264 / 1000000)) (of_int g)))
                    (fmul (lit (5 / 10)) (of_int b)))"
  let ?ncr = "Math_round (fsub (fsub (fadd 128 (fmul (lit (5 / 10)) (of_int r)))
                          (fmul (lit (418688 / 1000000)) (of_int g)))
                    (fmul (lit (81312 / 1000000)) (of_int b)))"
  have n: "nearest ?ny (y_exact r g b)" "nearest ?ncb (cb_exact r g b)" "nearest ?ncr (cr_exact r g b)"
    using assms by (simp_all only: nearest_y nearest_cb nearest_cr)
  have eq: "rgbToYcbcr r g b =
      \<lparr>ycbcr_y = clamp 16 235 ?ny, ycbcr_cb = clamp 16 240 ?ncb, ycbcr_cr = clamp 16 240 ?ncr\<rparr>"
    by (rule rgbToYcbcr_round_then_clamp)
  have ex: "\<exists>ny ncb ncr.
            nearest ny (y_exact r g b) \<and> nearest ncb (cb_exact r g b) \<and> nearest ncr (cr_exact r g b) \<and>
            rgbToYcbcr r g b =
              \<lparr>ycbcr_y = clamp 16 235 ny, ycbcr_cb = clamp 16 240 ncb, ycbcr_cr = clamp 16 240 ncr\<rparr>"
    using n eq by blast
  have "rgbToYcbcr r g b = spec_rgbToYcbcr r g b"
    if "\<not> tie (y_exact r g b) \<and> \<not> tie (cb_exact r g b) \<and> \<not> tie (cr_exact r g b)"
    using that n eq nearest_unique by (simp add: spec_rgbToYcbcr_def)
  then show ?thesis using ex by blast
qed

theorem rgbToYcbcr_nearest_witness:
  "rgbToYcbcr 59 130 246 = \<lparr>ycbcr_y = 122, ycbcr_cb = 198, ycbcr_cr = 83\<rparr> \<and>
   rgbToYcbcr 59 130 246 = spec_rgbToYcbcr 59 130 246"
proof -
  have "\<not> tie (y_exact 59 130 246) \<and> \<not> tie (cb_exact 59 130 246) \<and> \<not> tie (cr_exact 59 130 246)"
    by (simp add: exact_eval)
  moreover have "spec_rgbToYcbcr 59 130 246 = \<lparr>ycbcr_y = 122, ycbcr_cb = 198, ycbcr_cr = 83\<rparr>"
    by (simp add: exact_eval)
  ultimately show ?thesis using rgbToYcbcr_nearest[of 59 130 246] by simp
qed

subsection \<open>\<open>ycbcrToRgb\<close>\<close>

lemma r_exact_frac:
  "r_exact y cb cr = of_int (1164000 * (y - 16) + 1596000 * (cr - 128)) / 1000000"
  by (simp add: r_exact_def field_simps)

lemma g_exact_frac:
  "g_exact y cb cr =
     of_int (1164000 * (y - 16) - 392000 * (cb - 128) - 813000 * (cr - 128)) / 1000000"
  by (simp add: g_exact_def field_simps)

lemma b_exact_frac:
  "b_exact y cb cr = of_int (1164000 * (y - 16) + 2017000 * (cb - 128)) / 1000000"
  by (simp add: b_exact_def field_simps)

lemma adj_close:
  assumes "\<bar>of_int v - c\<bar> \<le> (1000::rat)"
  shows "\<bar>fsub (of_int v) c - (of_int v - c)\<bar> \<le> eps"
proof -
  have "\<bar>fsub (of_int v) c - (of_int v - c)\<bar> \<le> 0 + 0 + eps"
    by (rule fsub_close) (use assms in simp_all)
  then show ?thesis by simp
qed

lemma term_close:
  assumes "\<bar>q\<bar> \<le> 3" "\<bar>of_int v - c\<bar> \<le> (255::rat)"
  shows "\<bar>fmul (lit q) (fsub (of_int v) c) - q * (of_int v - c)\<bar> \<le> 5 * eps"
proof -
  have a: "\<bar>fsub (of_int v) c - (of_int v - c)\<bar> \<le> eps"
    using assms(2) by (intro adj_close) simp
  have "\<bar>fmul (lit q) (fsub (of_int v) c) - q * (of_int v - c)\<bar> \<le> 3 * eps + 2 * eps"
    by (rule fmul_lit_close[OF assms(1) a]) (use assms(2) eps_small(1) in simp_all)
  then show ?thesis by simp
qed

lemma r_close:
  assumes "16 \<le> y" "y \<le> 235" "16 \<le> cb" "cb \<le> 240" "16 \<le> cr" "cr \<le> 240"
  shows "\<bar>fadd (fmul (lit (1164 / 1000)) (fsub (of_int y) 16))
               (fmul (lit (1596 / 1000)) (fsub (of_int cr) 128)) - r_exact y cb cr\<bar> \<le> 11 * eps"
proof -
  define Y Cb Cr :: rat where "Y = of_int y - 16" and "Cb = of_int cb - 128" and "Cr = of_int cr - 128"
  have bnd: "0 \<le> Y" "Y \<le> 219" "- 112 \<le> Cb" "Cb \<le> 112" "- 112 \<le> Cr" "Cr \<le> 112"
    using assms by (simp_all add: Y_def Cb_def Cr_def)
  note e = eps_small(1) eps_pos
  have p1: "\<bar>fmul (lit (1164 / 1000)) (fsub (of_int y) 16) - 1164 / 1000 * Y\<bar> \<le> 5 * eps"
    unfolding Y_def by (rule term_close) (use bnd in \<open>simp_all add: Y_def\<close>)
  have p2: "\<bar>fmul (lit (1596 / 1000)) (fsub (of_int cr) 128) - 1596 / 1000 * Cr\<bar> \<le> 5 * eps"
    unfolding Cr_def by (rule term_close) (use bnd in \<open>simp_all add: Cr_def\<close>)
  have "\<bar>fadd (fmul (lit (1164 / 1000)) (fsub (of_int y) 16))
               (fmul (lit (1596 / 1000)) (fsub (of_int cr) 128))
        - (1164 / 1000 * Y + 1596 / 1000 * Cr)\<bar> \<le> 5 * eps + 5 * eps + eps"
    by (rule fadd_close[OF p1 p2]) (use bnd e in linarith)+
  then show ?thesis unfolding r_exact_def Y_def Cr_def by simp
qed

lemma g_close:
  assumes "16 \<le> y" "y \<le> 235" "16 \<le> cb" "cb \<le> 240" "16 \<le> cr" "cr \<le> 240"
  shows "\<bar>fsub (fsub (fmul (lit (1164 / 1000)) (fsub (of_int y) 16))
                     (fmul (lit (392 / 1000)) (fsub (of_int cb) 128)))
               (fmul (lit (813 / 1000)) (fsub (of_int cr) 128)) - g_exact y cb cr\<bar> \<le> 17 * eps"
proof -
  define Y Cb Cr :: rat where "Y = of_int y - 16" and "Cb = of_int cb - 128" and "Cr = of_int cr - 128"
  have bnd: "0 \<le> Y" "Y \<le> 219" "- 112 \<le> Cb" "Cb \<le> 112" "- 112 \<le> Cr" "Cr \<le> 112"
    using assms by (simp_all add: Y_def Cb_def Cr_def)
  note e = eps_small(1) eps_pos
  have p1: "\<bar>fmul (lit (1164 / 1000)) (fsub (of_int y) 16) - 1164 / 1000 * Y\<bar> \<le> 5 * eps"
    unfolding Y_def by (rule term_close) (use bnd in \<open>simp_all add: Y_def\<close>)
  have p2: "\<bar>fmul (lit (392 / 1000)) (fsub (of_int cb) 128) - 392 / 1000 * Cb\<bar> \<le> 5 * eps"
    unfolding Cb_def by (rule term_close) (use bnd in \<open>simp_all add: Cb_def\<close>)
  have p3: "\<bar>fmul (lit (813 / 1000)) (fsub (of_int cr) 128) - 813 / 1000 * Cr\<bar> \<le> 5 * eps"
    unfolding Cr_def by (rule term_close) (use bnd in \<open>simp_all add: Cr_def\<close>)
  have s1: "\<bar>fsub (fmul (lit (1164 / 1000)) (fsub (of_int y) 16))
               (fmul (lit (392 / 1000)) (fsub (of_int cb) 128))
        - (1164 / 1000 * Y - 392 / 1000 * Cb)\<bar> \<le> 5 * eps + 5 * eps + eps"
    by (rule fsub_close[OF p1 p2]) (use bnd e in linarith)+
  have "\<bar>fsub (fsub (fmul (lit (1164 / 1000)) (fsub (of_int y) 16))
                     (fmul (lit (392 / 1000)) (fsub (of_int cb) 128)))
               (fmul (lit (813 / 1000)) (fsub (of_int cr) 128))
        - ((1164 / 1000 * Y - 392 / 1000 * Cb) - 813 / 1000 * Cr)\<bar>
        \<le> (5 * eps + 5 * eps + eps) + 5 * eps + eps"
    by (rule fsub_close[OF s1 p3]) (use bnd e in linarith)+
  then show ?thesis unfolding g_exact_def Y_def Cb_def Cr_def by simp
qed

lemma b_close:
  assumes "16 \<le> y" "y \<le> 235" "16 \<le> cb" "cb \<le> 240" "16 \<le> cr" "cr \<le> 240"
  shows "\<bar>fadd (fmul (lit (1164 / 1000)) (fsub (of_int y) 16))
               (fmul (lit (2017 / 1000)) (fsub (of_int cb) 128)) - b_exact y cb cr\<bar> \<le> 11 * eps"
proof -
  define Y Cb Cr :: rat where "Y = of_int y - 16" and "Cb = of_int cb - 128" and "Cr = of_int cr - 128"
  have bnd: "0 \<le> Y" "Y \<le> 219" "- 112 \<le> Cb" "Cb \<le> 112" "- 112 \<le> Cr" "Cr \<le> 112"
    using assms by (simp_all add: Y_def Cb_def Cr_def)
  note e = eps_small(1) eps_pos
  have p1: "\<bar>fmul (lit (1164 / 1000)) (fsub (of_int y) 16) - 1164 / 1000 * Y\<bar> \<le> 5 * eps"
    unfolding Y_def by (rule term_close) (use bnd in \<open>simp_all add: Y_def\<close>)
  have p2: "\<bar>fmul (lit (2017 / 1000)) (fsub (of_int cb) 128) - 2017 / 1000 * Cb\<bar> \<le> 5 * eps"
    unfolding Cb_def by (rule term_close) (use bnd in \<open>simp_all add: Cb_def\<close>)
  have "\<bar>fadd (fmul (lit (1164 / 1000)) (fsub (of_int y) 16))
               (fmul (lit (2017 / 1000)) (fsub (of_int cb) 128))
        - (1164 / 1000 * Y + 2017 / 1000 * Cb)\<bar> \<le> 5 * eps + 5 * eps + eps"
    by (rule fadd_close[OF p1 p2]) (use bnd e in linarith)+
  then show ?thesis unfolding b_exact_def Y_def Cb_def by simp
qed

lemma nearest_r:
  assumes "16 \<le> y" "y \<le> 235" "16 \<le> cb" "cb \<le> 240" "16 \<le> cr" "cr \<le> 240"
  shows "nearest (Math_round (fadd (fmul (lit (1164 / 1000)) (fsub (of_int y) 16))
               (fmul (lit (1596 / 1000)) (fsub (of_int cr) 128)))) (r_exact y cb cr)"
proof -
  have "11 * eps < 1 / 1000000" using eps_small(2) eps_pos by linarith
  with r_close[OF assms] show ?thesis
    unfolding r_exact_frac by (rule nearest_of_close)
qed

lemma nearest_g:
  assumes "16 \<le> y" "y \<le> 235" "16 \<le> cb" "cb \<le> 240" "16 \<le> cr" "cr \<le> 240"
  shows "nearest (Math_round (fsub (fsub (fmul (lit (1164 / 1000)) (fsub (of_int y) 16))
                     (fmul (lit (392 / 1000)) (fsub (of_int cb) 128)))
               (fmul (lit (813 / 1000)) (fsub (of_int cr) 128)))) (g_exact y cb cr)"
proof -
  have "17 * eps < 1 / 1000000" using eps_small(2) eps_pos by linarith
  with g_close[OF assms] show ?thesis
    unfolding g_exact_frac by (rule nearest_of_close)
qed

lemma nearest_b:
  assumes "16 \<le> y" "y \<le> 235" "16 \<le> cb" "cb \<le> 240" "16 \<le> cr" "cr \<le> 240"
  shows "nearest (Math_round (fadd (fmul (lit (1164 / 1000)) (fsub (of_int y) 16))
               (fmul (lit (2017 / 1000)) (fsub (of_int cb) 128)))) (b_exact y cb cr)"
proof -
  have "11 * eps < 1 / 1000000" using eps_small(2) eps_pos by linarith
  with b_close[OF assms] show ?thesis
    unfolding b_exact_frac by (rule nearest_of_close)
qed

lemma ycbcrToRgb_round_then_clamp:
  "ycbcrToRgb y cb cr =
     \<lparr>rgb_r = clamp 0 255 (Math_round (fadd (fmul (lit (1164 / 1000)) (fsub (of_int y) 16))
               (fmul (lit (1596 / 1000)) (fsub (of_int cr) 128)))),
      rgb_g = clamp 0 255 (Math_round (fsub (fsub (fmul (lit (1164 / 1000)) (fsub (of_int y) 16))
                     (fmul (lit (392 / 1000)) (fsub (of_int cb) 128)))
               (fmul (lit (813 / 1000)) (fsub (of_int cr) 128)))),
      rgb_b = clamp 0 255 (Math_round (fadd (fmul (lit (1164 / 1000)) (fsub (of_int y) 16))
               (fmul (lit (2017 / 1000)) (fsub (of_int cb) 128))))\<rparr>"
  by (simp add: ycbcrToRgb_def Let_def Math_clamp)

lemma clamp_range: "lo \<le> hi \<Longrightarrow> lo \<le> clamp lo hi n \<and> clamp lo hi n \<le> hi"
  by (simp add: clamp_def)


text \<open>
  Claim C5. For y in 16..235 and cb, cr in 16..240, \<open>ycbcrToRgb y cb cr\<close> is the result of
  subtracting the offsets 16, 128 and 128, computing the three formulas, rounding each to
  a nearest integer and clamping it to 0..255; every channel of the result lies in 0..255.
\<close>

theorem ycbcrToRgb_nearest:
  assumes "16 \<le> y" "y \<le> 235" "16 \<le> cb" "cb \<le> 240" "16 \<le> cr" "cr \<le> 240"
  shows "(\<exists>nr ng nb.
            nearest nr (r_exact y cb cr) \<and> nearest ng (g_exact y cb cr) \<and> nearest nb (b_exact y cb cr) \<and>
            ycbcrToRgb y cb cr =
              \<lparr>rgb_r = clamp 0 255 nr, rgb_g = clamp 0 255 ng, rgb_b = clamp 0 255 nb\<rparr>) \<and>
         0 \<le> rgb_r (ycbcrToRgb y cb cr) \<and> rgb_r (ycbcrToRgb y cb cr) \<le> 255 \<and>
         0 \<le> rgb_g (ycbcrToRgb y cb cr) \<and> rgb_g (ycbcrToRgb y cb cr) \<le> 255 \<and>
         0 \<le> rgb_b (ycbcrToRgb y cb cr) \<and> rgb_b (ycbcrToRgb y cb cr) \<le> 255"
proof -
  let ?nr = "Math_round (fadd (fmul (lit (1164 / 1000)) (fsub (of_int y) 16))
               (fmul (lit (1596 / 1000)) (fsub (of_int cr) 128)))"
  let ?ng = "Math_round (fsub (fsub (fmul (lit (1164 / 1000)) (fsub (of_int y) 16))
                     (fmul (lit (392 / 1000)) (fsub (of_int cb) 128)))
               (fmul (lit (813 / 1000)) (fsub (of_int cr) 128)))"
  let ?nb = "Math_round (fadd (fmul (lit (1164 / 1000)) (fsub (of_int y) 16))
               (fmul (lit (2017 / 1000)) (fsub (of_int cb) 128)))"
  have n: "nearest ?nr (r_exact y cb cr)" "nearest ?ng (g_exact y cb cr)" "nearest ?nb (b_exact y cb cr)"
    using assms by (simp_all only: nearest_r nearest_g nearest_b)
  have eq: "ycbcrToRgb y cb cr =
      \<lparr>rgb_r = clamp 0 255 ?nr, rgb_g = clamp 0 255 ?ng, rgb_b = clamp 0 255 ?nb\<rparr>"
    by (rule ycbcrToRgb_round_then_clamp)
  have ex: "\<exists>nr ng nb.
            nearest nr (r_exact y cb cr) \<and> nearest ng (g_exact y cb cr) \<and> nearest nb (b_exact y cb cr) \<and>
            ycbcrToRgb y cb cr =
              \<lparr>rgb_r = clamp 0 255 nr, rgb_g = clamp 0 255 ng, rgb_b = clamp 0 255 nb\<rparr>"
    using n eq by blast
  show ?thesis using ex ycbcrToRgb_range[of y cb cr] by blast
qed

theorem ycbcrToRgb_nearest_witness:
  "ycbcrToRgb 120 128 150 = \<lparr>rgb_r = 156, rgb_g = 103, rgb_b = 121\<rparr> \<and>
   ycbcrToRgb 120 128 150 = spec_ycbcrToRgb 120 128 150"
proof -
  have t: "\<not> tie (r_exact 120 128 150)" "\<not> tie (g_exact 120 128 150)" "\<not> tie (b_exact 120 128 150)"
    by (simp_all add: exact_eval)
  have s: "spec_ycbcrToRgb 120 128 150 = \<lparr>rgb_r = 156, rgb_g = 103, rgb_b = 121\<rparr>"
    by (simp add: exact_eval)
  from ycbcrToRgb_nearest[of 120 128 150] obtain nr ng nb where
    n: "nearest nr (r_exact 120 128 150)" "nearest ng (g_exact 120 128 150)" "nearest nb (b_exact 120 128 150)"
    and eq: "ycbcrToRgb 120 128 150 = \<lparr>rgb_r = clamp 0 255 nr, rgb_g = clamp 0 255 ng, rgb_b = clamp 0 255 nb\<rparr>"
    by auto
  have "nr = round_half_up (r_exact 120 128 150)" "ng = round_half_up (g_exact 120 128 150)"
    "nb = round_half_up (b_exact 120 128 150)"
    using n t by (simp_all add: nearest_unique)
  then have "ycbcrToRgb 120 128 150 = spec_ycbcrToRgb 120 128 150"
    using eq by (simp add: spec_ycbcrToRgb_def)
  then show ?thesis using s by simp
qed

text \<open>
  Where the exact value is a tie, the nearest integer that the program returns can be
  the lower one: at (31, 16, 118) the red channel is exactly 1.5 and the program
  returns 1.
\<close>

lemma ycbcrToRgb_tie_example:
  "r_exact 31 16 118 = 3 / 2 \<and> rgb_r (ycbcrToRgb 31 16 118) = 1"
proof -
  have "r_exact 31 16 118 = 3 / 2" by (simp add: exact_eval)
  moreover have "rgb_r (ycbcrToRgb 31 16 118) = 1"
    by (simp add: ycbcrToRgb_def number_eval)
  ultimately show ?thesis by simp
qed

end
